theory Spec2Isabelle
  imports Complex_Main "HOL-Library.Word" "HOL-Library.Sublist"
begin

section \<open>Oil debris tester: the firmware of \<^verbatim>\<open>main.cpp\<close>\<close>

text \<open>
  The program is one C++ file: two global shared cells, three HTTP page handlers, a
  web-server task, a sensor task and the Arduino \<^verbatim>\<open>setup\<close>. Globals become the
  fields of one record that every function takes and returns; what a handler sends
  and what is printed on the serial line are appended to logs in that record.
\<close>

subsection \<open>Shared cells\<close>

text \<open>
  Modelled from the spec: the class template \<^verbatim>\<open>Share<T>\<close> comes from
  \<^verbatim>\<open>taskshare.h\<close>, which is included by \<^verbatim>\<open>main.cpp\<close> but is not among the
  sources. The specification (section 4.1) gives its contract: a cell is created with
  an initial value, \<^verbatim>\<open>put(v)\<close> unconditionally replaces the stored value, \<^verbatim>\<open>get()\<close>
  returns the most recently stored value, or the initial one. Each call is one
  indivisible step.
\<close>

datatype 'a Share = Share 'a

fun put :: "'a \<Rightarrow> 'a Share \<Rightarrow> 'a Share" where
  "put v (Share _) = Share v"

fun get :: "'a Share \<Rightarrow> 'a" where
  "get (Share v) = v"

text \<open>
  Modelled from the spec: a history of one cell is a list of the calls made on it by
  any task, in the order in which the indivisible steps take place.
\<close>

datatype 'a share_op = Put 'a | Get

fun share_step :: "'a share_op \<Rightarrow> 'a Share \<Rightarrow> 'a Share" where
  "share_step (Put v) c = put v c"
| "share_step Get c = c"

fun share_run :: "'a share_op list \<Rightarrow> 'a Share \<Rightarrow> 'a Share" where
  "share_run [] c = c"
| "share_run (x # xs) c = share_run xs (share_step x c)"

text \<open>The values returned by the \<^verbatim>\<open>get\<close> calls of a history, in order.\<close>

fun share_returns :: "'a share_op list \<Rightarrow> 'a Share \<Rightarrow> 'a list" where
  "share_returns [] c = []"
| "share_returns (Put v # xs) c = share_returns xs (put v c)"
| "share_returns (Get # xs) c = get c # share_returns xs c"

text \<open>The values supplied to the \<^verbatim>\<open>put\<close> calls of a history.\<close>

fun put_values :: "'a share_op list \<Rightarrow> 'a list" where
  "put_values [] = []"
| "put_values (Put v # xs) = v # put_values xs"
| "put_values (Get # xs) = put_values xs"

subsection \<open>Numbers as text\<close>

type_synonym uint8_t = "8 word"

text \<open>
  \<^verbatim>\<open>String (v_fine.get())\<close> is the Arduino constructor
  \<^verbatim>\<open>String (unsigned char value, unsigned char base = 10)\<close>: the decimal digits of the
  value, most significant first, without sign or padding.
\<close>

definition digit :: "nat \<Rightarrow> char" where
  "digit d = ''0123456789'' ! d"

function utoa :: "nat \<Rightarrow> string" where
  "utoa n = (if n < 10 then [digit n] else utoa (n div 10) @ [digit (n mod 10)])"
  by pat_completeness auto
termination
  by (relation "measure id") auto

declare utoa.simps [simp del]

definition String_uchar :: "uint8_t \<Rightarrow> string" where
  "String_uchar v = utoa (unat v)"

subsection \<open>The web server object and the program state\<close>

text \<open>
  \<^verbatim>\<open>server.send (code, content_type, content)\<close> answers the request being handled.
\<close>

record response =
  code :: nat
  content_type :: string
  content :: string

text \<open>The three callbacks registered with the server are function pointers.\<close>

datatype callback = Handle_DocumentRoot | Handle_Sensor | Handle_NotFound

record WebServer =
  port :: nat
  handlers :: "(string \<times> callback) list"
  notFoundHandler :: "callback option"
  begun :: bool
  sent :: "response list"

record task =
  task_name :: string
  stack_depth :: nat
  priority :: nat

datatype task_code = Task_webserver | Task_sensor

datatype task_status = Ready

datatype pin_mode = INPUT

datatype wifi_mode = WIFI_AP

datatype IPAddress = IPAddress nat nat nat nat

record WiFi_state =
  wifi_mode :: "wifi_mode option"
  softAPConfig :: "(IPAddress \<times> IPAddress \<times> IPAddress) option"
  softAP :: "(string \<times> string) option"

record system =
  v_fine :: "uint8_t Share"
  v_coarse :: "uint8_t Share"
  server :: WebServer
  Serial :: string
  Serial_baud :: "nat option"
  pinModes :: "(nat \<times> pin_mode) list"
  WiFi :: WiFi_state
  tasks :: "(task_code \<times> task \<times> task_status) list"

text \<open>
  The state when the program starts: the globals as their constructors leave them
  (\<^verbatim>\<open>Share<uint8_t> v_fine (0)\<close>, \<^verbatim>\<open>Share<uint8_t> v_coarse (0)\<close>,
  \<^verbatim>\<open>WebServer server (80)\<close>), nothing printed, nothing configured, no task created.
\<close>

definition initial_system :: system where
  "initial_system =
     \<lparr>v_fine = Share 0, v_coarse = Share 0,
      server = \<lparr>port = 80, handlers = [], notFoundHandler = None, begun = False, sent = []\<rparr>,
      Serial = [], Serial_baud = None, pinModes = [],
      WiFi = \<lparr>wifi_mode = None, softAPConfig = None, softAP = None\<rparr>,
      tasks = []\<rparr>"

definition send :: "nat \<Rightarrow> string \<Rightarrow> string \<Rightarrow> system \<Rightarrow> system" where
  "send c ty body s =
     s\<lparr>server := (server s)\<lparr>sent := sent (server s) @
        [\<lparr>code = c, content_type = ty, content = body\<rparr>]\<rparr>\<rparr>"

definition Serial_print :: "string \<Rightarrow> system \<Rightarrow> system" where
  "Serial_print str s = s\<lparr>Serial := Serial s @ str\<rparr>"

text \<open>\<^verbatim>\<open>println\<close> and \<^verbatim>\<open>endl\<close> end the line with carriage return and line feed.\<close>

definition Serial_println :: "string \<Rightarrow> system \<Rightarrow> system" where
  "Serial_println str s = Serial_print (str @ [CHR 0x0D, CHR 0x0A]) s"

subsection \<open>The CSV page\<close>

text \<open>
  \<^verbatim>\<open>
  String IMU_str = "Fine Voltage, Coarse Voltage\n";
  for (uint8_t index = 0; index < 20; index++)
  {
      IMU_str += String (v_fine.get());
      IMU_str += ",";
      IMU_str += String (v_coarse.get());
      IMU_str += "\n";
  }
  server.send (404, "text/plain", IMU_str);
  \<close>
  The index stays below 21, so the 8-bit counter never wraps and is a \<open>nat\<close> here.
\<close>

function handle_Sensor_loop :: "nat \<Rightarrow> string \<Rightarrow> system \<Rightarrow> string" where
  "handle_Sensor_loop index IMU_str s =
     (if index < 20 then
        let IMU_str = IMU_str @ String_uchar (get (v_fine s));
            IMU_str = IMU_str @ '','';
            IMU_str = IMU_str @ String_uchar (get (v_coarse s));
            IMU_str = IMU_str @ ''\<newline>''
        in handle_Sensor_loop (index + 1) IMU_str s
      else IMU_str)"
  by pat_completeness auto
termination
  by (relation "measure (\<lambda>(index, IMU_str, s). 20 - index)") auto

declare handle_Sensor_loop.simps [simp del]

definition handle_Sensor :: "system \<Rightarrow> system" where
  "handle_Sensor s =
     (let IMU_str = ''Fine Voltage, Coarse Voltage\<newline>'';
          IMU_str = handle_Sensor_loop 0 IMU_str s
      in send 404 ''text/plain'' IMU_str s)"

text \<open>One data row of the page for given cell contents.\<close>

definition csv_row :: "uint8_t \<Rightarrow> uint8_t \<Rightarrow> string" where
  "csv_row f c = String_uchar f @ '','' @ String_uchar c @ ''\<newline>''"

subsection \<open>The landing page and the error page\<close>

text \<open>
  \<^verbatim>\<open>HTML_header (String& a_string, const char* page_title)\<close> appends to the string it
  is given.
\<close>

definition HTML_header :: "string \<Rightarrow> string \<Rightarrow> string" where
  \<open>HTML_header a_string page_title =
     (let a_string = a_string @ ''<!DOCTYPE html> <html>\<newline>'';
          a_string = a_string @ ''<head><meta name="viewport" content="width=device-width,'';
          a_string = a_string @ '' initial-scale=1.0, user-scalable=no">\<newline><title> '';
          a_string = a_string @ page_title;
          a_string = a_string @ ''</title>\<newline>'';
          a_string = a_string @ ''<style>html { font-family: Helvetica; display: inline-block;'';
          a_string = a_string @ '' margin: 0px auto; text-align: center;}\<newline>'';
          a_string = a_string @
            ''body{margin-top: 50px;} h1 {color: #4444AA;margin: 50px auto 30px;}\<newline>'';
          a_string = a_string @ ''p {font-size: 24px;color: #222222;margin-bottom: 10px;}\<newline>'';
          a_string = a_string @ ''</style>\<newline></head>\<newline>''
      in a_string)\<close>

text \<open>
  A request, as far as the handlers see it: the path asked for, and the text that
  \<^verbatim>\<open>Serial << server.client ()\<close> prints for the connection.
\<close>

record request =
  uri :: string
  client :: string

definition document_root_page :: string where
  \<open>document_root_page =
     (let a_str = [];
          a_str = HTML_header a_str ''ESP32 Web Server Test'';
          a_str = a_str @ ''<body>\<newline><div id="webpage">\<newline>'';
          a_str = a_str @ ''<h1>Oil Debri Testing Page</h1>\<newline>'';
          a_str = a_str @ ''<p><p> <a href="/csv">Debri Test Data</a>\<newline>'';
          a_str = a_str @ ''</div>\<newline></body>\<newline></html>\<newline>''
      in a_str)\<close>

definition handle_DocumentRoot :: "request \<Rightarrow> system \<Rightarrow> system" where
  "handle_DocumentRoot req s =
     (let s = Serial_println (''HTTP request from client #'' @ client req) s
      in send 200 ''text/html'' document_root_page s)"

definition handle_NotFound :: "system \<Rightarrow> system" where
  "handle_NotFound s = send 404 ''text/plain'' ''Not found'' s"

subsection \<open>The web-server task\<close>

fun run_callback :: "callback \<Rightarrow> request \<Rightarrow> system \<Rightarrow> system" where
  "run_callback Handle_DocumentRoot req s = handle_DocumentRoot req s"
| "run_callback Handle_Sensor req s = handle_Sensor s"
| "run_callback Handle_NotFound req s = handle_NotFound s"

text \<open>
  Modelled from the spec: the class \<^verbatim>\<open>WebServer\<close> is the HTTP library and is not
  among the sources. The specification (sections 3 and 4.4) describes it as a route
  table from URL path to handler, with a handler for every path that has no entry:
  \<^verbatim>\<open>on\<close> adds an entry, \<^verbatim>\<open>onNotFound\<close> sets the fallback, and \<^verbatim>\<open>handleClient\<close>
  dispatches a pending request, if there is one, through the table (the first entry
  for the path wins). Without a fallback the library answers 404 by itself.
\<close>

definition on :: "string \<Rightarrow> callback \<Rightarrow> system \<Rightarrow> system" where
  "on path fn s = s\<lparr>server := (server s)\<lparr>handlers := handlers (server s) @ [(path, fn)]\<rparr>\<rparr>"

definition onNotFound :: "callback \<Rightarrow> system \<Rightarrow> system" where
  "onNotFound fn s = s\<lparr>server := (server s)\<lparr>notFoundHandler := Some fn\<rparr>\<rparr>"

definition begin_server :: "system \<Rightarrow> system" where
  "begin_server s = s\<lparr>server := (server s)\<lparr>begun := True\<rparr>\<rparr>"

definition handleClient :: "request option \<Rightarrow> system \<Rightarrow> system" where
  "handleClient pending s =
     (case pending of
        None \<Rightarrow> s
      | Some req \<Rightarrow>
          if \<not> begun (server s) then s
          else (case map_of (handlers (server s)) (uri req) of
                  Some fn \<Rightarrow> run_callback fn req s
                | None \<Rightarrow>
                    (case notFoundHandler (server s) of
                       Some fn \<Rightarrow> run_callback fn req s
                     | None \<Rightarrow> send 404 ''text/html'' (''Not found: '' @ uri req) s)))"

text \<open>The state of the server once \<^verbatim>\<open>task_webserver\<close> has installed its routes.\<close>

definition routes_installed :: "system \<Rightarrow> bool" where
  "routes_installed s =
     (begun (server s)
      \<and> handlers (server s) = [(''/'', Handle_DocumentRoot), (''/csv'', Handle_Sensor)]
      \<and> notFoundHandler (server s) = Some Handle_NotFound)"

text \<open>
  \<^verbatim>\<open>task_webserver\<close> first installs the routes and starts the server, then polls it
  for ever. The part before the loop and one turn of the loop are two functions; the
  turn takes the request that is waiting, if any.
\<close>

definition task_webserver_init :: "system \<Rightarrow> system" where
  "task_webserver_init s =
     (let s = on ''/'' Handle_DocumentRoot s;
          s = on ''/csv'' Handle_Sensor s;
          s = onNotFound Handle_NotFound s;
          s = begin_server s
      in Serial_println ''HTTP server started'' s)"

definition task_webserver_turn :: "request option \<Rightarrow> system \<Rightarrow> system" where
  "task_webserver_turn pending s = handleClient pending s"

subsection \<open>Floating point\<close>

text \<open>
  The sensor task computes in \<^verbatim>\<open>double\<close> and \<^verbatim>\<open>float\<close>. A finite value of either
  type is a rational number, and every operation returns the exact result rounded to
  the nearest value of the type, ties to the even significand (IEEE 754, the default
  rounding): 53 significant bits for \<^verbatim>\<open>double\<close>, 24 for \<^verbatim>\<open>float\<close>. The exponent
  range is not bounded here; the values of this program lie between \<open>2\<^sup>-\<^sup>1\<^sup>0\<close> and 16,
  far from overflow and from the subnormal numbers.
\<close>

text \<open>The number of binary digits of a positive integer.\<close>

function bitlen :: "int \<Rightarrow> int" where
  "bitlen a = (if 0 < a then 1 + bitlen (a div 2) else 0)"
  by pat_completeness auto
termination
  by (relation "measure nat") auto

declare bitlen.simps [simp del]

text \<open>The binary exponent \<open>e\<close> of a non-zero number: \<open>2\<^sup>e \<le> \<bar>x\<bar> < 2\<^sup>e\<^sup>+\<^sup>1\<close>.\<close>

definition exponent :: "rat \<Rightarrow> int" where
  "exponent x =
     (let (a, b) = quotient_of \<bar>x\<bar>;
          k = bitlen a - bitlen b
      in if 2 powi k \<le> \<bar>x\<bar> then k else k - 1)"

definition nearest_even :: "rat \<Rightarrow> int" where
  "nearest_even x =
     (let f = \<lfloor>x\<rfloor>; r = x - of_int f
      in if r < 1 / 2 then f else if 1 / 2 < r then f + 1
         else if even f then f else f + 1)"

text \<open>The spacing of the numbers with \<open>p\<close> significant bits around \<open>x\<close>.\<close>

definition ulp :: "nat \<Rightarrow> rat \<Rightarrow> rat" where
  "ulp p x = 2 powi (exponent x - int p + 1)"

definition round_to :: "nat \<Rightarrow> rat \<Rightarrow> rat" where
  "round_to p x =
     (if x = 0 then 0 else of_int (nearest_even (x / ulp p x)) * ulp p x)"

type_synonym double = rat
type_synonym float = rat

definition double_of_int :: "int \<Rightarrow> double" where
  "double_of_int n = round_to 53 (of_int n)"

definition double_div :: "double \<Rightarrow> double \<Rightarrow> double" where
  "double_div a b = round_to 53 (a / b)"

definition double_mul :: "double \<Rightarrow> double \<Rightarrow> double" where
  "double_mul a b = round_to 53 (a * b)"

definition float_of_double :: "double \<Rightarrow> float" where
  "float_of_double d = round_to 24 d"

definition float_add :: "float \<Rightarrow> float \<Rightarrow> float" where
  "float_add a b = round_to 24 (a + b)"

text \<open>
  Passing a \<^verbatim>\<open>float\<close> where \<^verbatim>\<open>put\<close> expects a \<^verbatim>\<open>uint8_t\<close> drops the fraction
  (towards zero). C++ leaves the conversion undefined when the integer does not fit
  in eight bits; here it wraps.
\<close>

definition truncate :: "rat \<Rightarrow> int" where
  "truncate x = (if x < 0 then - \<lfloor>- x\<rfloor> else \<lfloor>x\<rfloor>)"

definition uint8_of_float :: "float \<Rightarrow> uint8_t" where
  "uint8_of_float v = word_of_int (truncate v)"

subsection \<open>The sensor task\<close>

type_synonym uint16_t = "16 word"

text \<open>
  \<^verbatim>\<open>float voltage1 = analogRead(fine_wear) * (5 / 4095.0);\<close>
  \<^verbatim>\<open>analogRead\<close> returns the converter's count as a \<^verbatim>\<open>uint16_t\<close>; the count and the
  \<^verbatim>\<open>5\<close> are converted to \<^verbatim>\<open>double\<close>, the quotient and the product are \<^verbatim>\<open>double\<close>,
  and the initialisation narrows the product to \<^verbatim>\<open>float\<close>.
\<close>

definition voltage :: "uint16_t \<Rightarrow> float" where
  "voltage raw =
     float_of_double (double_mul (double_of_int (uint raw)) (double_div (double_of_int 5) 4095))"

text \<open>
  One turn of the loop of \<^verbatim>\<open>task_sensor\<close>. The two counts that \<^verbatim>\<open>analogRead\<close>
  returns in this turn are arguments, and so is \<open>print_float\<close>, the text that
  \<^verbatim>\<open>Serial.print\<close> writes for a \<^verbatim>\<open>float\<close> (a function of the Arduino core).
\<close>

definition task_sensor_turn :: "(float \<Rightarrow> string) \<Rightarrow> uint16_t \<Rightarrow> uint16_t \<Rightarrow> system \<Rightarrow> system" where
  "task_sensor_turn print_float raw1 raw2 s =
     (let voltage1 = voltage raw1;
          voltage2 = voltage raw2;
          s = s\<lparr>v_fine := put (uint8_of_float voltage1) (v_fine s)\<rparr>;
          s = s\<lparr>v_coarse := put (uint8_of_float voltage2) (v_coarse s)\<rparr>;
          sum = float_add voltage1 voltage2;
          s = Serial_print '' Fine Wear Voltage: '' s;
          s = Serial_print (print_float voltage1) s;
          s = Serial_print ''V'' s;
          s = Serial_print '' Coarse Wear Voltage: '' s;
          s = Serial_print (print_float voltage2) s;
          s = Serial_print ''V'' s;
          s = Serial_print '' Sum: '' s;
          s = Serial_print (print_float sum) s
      in Serial_println ''V'' s)"

text \<open>
  An instance of \<open>print_float\<close>, for evaluating a turn on given counts: sign, integer
  part, point and two decimals, rounded half up, which is how the Arduino core prints a
  \<^verbatim>\<open>float\<close> when no number of digits is given.
\<close>

definition two_decimals :: "float \<Rightarrow> string" where
  "two_decimals v =
     (let number = \<bar>v\<bar> + 1 / 200;
          int_part = \<lfloor>number\<rfloor>;
          remainder = (number - of_int int_part) * 10;
          d1 = \<lfloor>remainder\<rfloor>;
          remainder = (remainder - of_int d1) * 10;
          d2 = \<lfloor>remainder\<rfloor>
      in (if v < 0 then ''-'' else []) @ utoa (nat int_part) @ ''.'' @ utoa (nat d1) @ utoa (nat d2))"

subsection \<open>The CSV page while the sensor task runs\<close>

text \<open>
  The sensor task has the higher priority and the kernel is pre-emptive, so the
  sensor task may run between any two steps of a handler. In the loop below
  \<open>others k\<close> is what the other tasks do to the state just before the handler's
  \<open>k\<close>-th call of \<^verbatim>\<open>get\<close> (two calls per row, numbered from 0); apart from that it is
  the loop of \<^verbatim>\<open>handle_Sensor\<close>, statement by statement.
\<close>

function handle_Sensor_loop_preempted ::
    "(nat \<Rightarrow> system \<Rightarrow> system) \<Rightarrow> nat \<Rightarrow> string \<Rightarrow> system \<Rightarrow> string \<times> system" where
  "handle_Sensor_loop_preempted others index IMU_str s =
     (if index < 20 then
        let s = others (2 * index) s;
            IMU_str = IMU_str @ String_uchar (get (v_fine s));
            IMU_str = IMU_str @ '','';
            s = others (2 * index + 1) s;
            IMU_str = IMU_str @ String_uchar (get (v_coarse s));
            IMU_str = IMU_str @ ''\<newline>''
        in handle_Sensor_loop_preempted others (index + 1) IMU_str s
      else (IMU_str, s))"
  by pat_completeness auto
termination
  by (relation "measure (\<lambda>(others, index, IMU_str, s). 20 - index)") auto

declare handle_Sensor_loop_preempted.simps [simp del]

definition handle_Sensor_preempted :: "(nat \<Rightarrow> system \<Rightarrow> system) \<Rightarrow> system \<Rightarrow> system" where
  "handle_Sensor_preempted others s =
     (let IMU_str = ''Fine Voltage, Coarse Voltage\<newline>'';
          (IMU_str, s) = handle_Sensor_loop_preempted others 0 IMU_str s
      in send 404 ''text/plain'' IMU_str s)"

text \<open>
  The state after the other tasks' first \<open>k\<close> interventions. The handler's call of
  \<^verbatim>\<open>get\<close> number \<open>k\<close> (from 0) is made in the state \<open>state_after others (k + 1) s\<close>:
  row \<open>i\<close> reads the fine cell in \<open>state_after others (2 * i + 1) s\<close> and the coarse
  cell in \<open>state_after others (2 * i + 2) s\<close>.
\<close>

fun state_after :: "(nat \<Rightarrow> system \<Rightarrow> system) \<Rightarrow> nat \<Rightarrow> system \<Rightarrow> system" where
  "state_after others 0 s = s"
| "state_after others (Suc k) s = others k (state_after others k s)"

text \<open>
  At each of the handler's forty calls of \<^verbatim>\<open>get\<close> the two cells hold the values they
  held when the handler was entered.
\<close>

definition cells_steady :: "(nat \<Rightarrow> system \<Rightarrow> system) \<Rightarrow> system \<Rightarrow> bool" where
  "cells_steady others s =
     list_all (\<lambda>k. get (v_fine (state_after others k s)) = get (v_fine s)
                 \<and> get (v_coarse (state_after others k s)) = get (v_coarse s)) [1..<41]"

text \<open>
  Two schedules: no other task runs; the sensor task takes one turn, just before the
  handler's \<open>n\<close>-th call of \<^verbatim>\<open>get\<close>.
\<close>

definition nobody :: "nat \<Rightarrow> system \<Rightarrow> system" where
  "nobody k s = s"

definition sensor_turn_before ::
    "nat \<Rightarrow> (float \<Rightarrow> string) \<Rightarrow> uint16_t \<Rightarrow> uint16_t \<Rightarrow> nat \<Rightarrow> system \<Rightarrow> system" where
  "sensor_turn_before n print_float raw1 raw2 k s =
     (if k = n then task_sensor_turn print_float raw1 raw2 s else s)"

text \<open>The lines of a text: the number of line feeds in it.\<close>

definition line_count :: "string \<Rightarrow> nat" where
  "line_count str = length (filter (\<lambda>c. c = CHR 0x0A) str)"

subsection \<open>Start-up\<close>

definition fine_wear :: nat where
  "fine_wear = 36"

definition coarse_wear :: nat where
  "coarse_wear = 39"

definition ssid :: string where
  "ssid = ''debris_tester''"

definition password :: string where
  "password = ''password''"

definition local_ip :: IPAddress where
  "local_ip = IPAddress 192 168 5 1"

definition gateway :: IPAddress where
  "gateway = IPAddress 192 168 5 1"

definition subnet :: IPAddress where
  "subnet = IPAddress 255 255 255 0"

text \<open>\<^verbatim>\<open>USE_LAN\<close> is undefined, so \<^verbatim>\<open>setup_wifi\<close> is its access-point branch.\<close>

definition setup_wifi :: "system \<Rightarrow> system" where
  "setup_wifi s =
     (let s = Serial_print ''Setting up WiFi access point...'' s;
          s = s\<lparr>WiFi := (WiFi s)\<lparr>wifi_mode := Some WIFI_AP\<rparr>\<rparr>;
          s = s\<lparr>WiFi := (WiFi s)\<lparr>softAPConfig := Some (local_ip, gateway, subnet)\<rparr>\<rparr>;
          s = s\<lparr>WiFi := (WiFi s)\<lparr>softAP := Some (ssid, password)\<rparr>\<rparr>
      in Serial_println ''done.'' s)"

definition pinMode :: "nat \<Rightarrow> pin_mode \<Rightarrow> system \<Rightarrow> system" where
  "pinMode pin m s = s\<lparr>pinModes := pinModes s @ [(pin, m)]\<rparr>"

text \<open>
  \<^verbatim>\<open>xTaskCreate (code, name, stack depth, parameters, priority, handle)\<close> is the
  kernel's call that creates a task and puts it among the tasks ready to run. The
  program ignores its result; the kernel is taken to have the memory for the stack.
\<close>

definition xTaskCreate :: "task_code \<Rightarrow> string \<Rightarrow> nat \<Rightarrow> nat \<Rightarrow> system \<Rightarrow> system" where
  "xTaskCreate fn name depth prio s =
     s\<lparr>tasks := tasks s @
        [(fn, \<lparr>task_name = name, stack_depth = depth, priority = prio\<rparr>, Ready)]\<rparr>"

text \<open>
  \<^verbatim>\<open>while (!Serial) delay(10);\<close> waits until the serial port is up. \<open>ready n\<close> says
  whether the port is up at the \<open>n\<close>-th test; the loop returns the number of the test
  that succeeded, and has no value when none does.
\<close>

partial_function (option) wait_for_Serial :: "(nat \<Rightarrow> bool) \<Rightarrow> nat \<Rightarrow> nat option" where
  "wait_for_Serial ready n = (if ready n then Some n else wait_for_Serial ready (n + 1))"

text \<open>The function \<^verbatim>\<open>setup\<close> of the program (the name is reserved in Isabelle).\<close>

definition setup_fn :: "(nat \<Rightarrow> bool) \<Rightarrow> system \<Rightarrow> system option" where
  "setup_fn ready s =
     (let s = s\<lparr>Serial_baud := Some 115200\<rparr>
      in case wait_for_Serial ready 0 of
           None \<Rightarrow> None
         | Some _ \<Rightarrow>
             Some (let s = pinMode fine_wear INPUT s;
                       s = pinMode coarse_wear INPUT s;
                       s = setup_wifi s;
                       s = xTaskCreate Task_webserver ''Web Server'' 8192 2 s
                   in xTaskCreate Task_sensor ''Sensor'' 4000 4 s))"

subsection \<open>Runs of the program\<close>

text \<open>
  After \<^verbatim>\<open>setup\<close> the two tasks take turns as the kernel decides. A run is a list of
  the turns taken: a turn of the sensor loop with the two counts read, the start of the
  web-server task, or a turn of its loop with the request that is waiting.
\<close>

datatype event =
    Sensor_turn uint16_t uint16_t
  | Webserver_init
  | Webserver_turn "request option"

fun step :: "(float \<Rightarrow> string) \<Rightarrow> event \<Rightarrow> system \<Rightarrow> system" where
  "step pf (Sensor_turn raw1 raw2) s = task_sensor_turn pf raw1 raw2 s"
| "step pf Webserver_init s = task_webserver_init s"
| "step pf (Webserver_turn pending) s = task_webserver_turn pending s"

fun run :: "(float \<Rightarrow> string) \<Rightarrow> event list \<Rightarrow> system \<Rightarrow> system" where
  "run pf [] s = s"
| "run pf (e # es) s = run pf es (step pf e s)"

text \<open>The converter has twelve bits: a count is at most 4095.\<close>

fun counts_in_range :: "event \<Rightarrow> bool" where
  "counts_in_range (Sensor_turn raw1 raw2) = (raw1 \<le> 4095 \<and> raw2 \<le> 4095)"
| "counts_in_range Webserver_init = True"
| "counts_in_range (Webserver_turn pending) = True"

fun is_sensor_turn :: "event \<Rightarrow> bool" where
  "is_sensor_turn (Sensor_turn raw1 raw2) = True"
| "is_sensor_turn Webserver_init = False"
| "is_sensor_turn (Webserver_turn pending) = False"

text \<open>What has been printed on the serial line between two states.\<close>

definition printed :: "system \<Rightarrow> system \<Rightarrow> string" where
  "printed s s' = drop (length (Serial s)) (Serial s')"

section \<open>Properties\<close>

subsection \<open>The CSV page\<close>

lemma handle_Sensor_loop_rows:
  "index \<le> 20 \<Longrightarrow>
   handle_Sensor_loop index str s =
     str @ concat (replicate (20 - index) (csv_row (get (v_fine s)) (get (v_coarse s))))"
proof (induction index str s rule: handle_Sensor_loop.induct)
  case (1 index IMU_str s)
  show ?case
  proof (cases "index < 20")
    case True
    then have "20 - index = Suc (20 - (index + 1))" by simp
    with True "1.IH" show ?thesis
      by (subst handle_Sensor_loop.simps) (simp add: Let_def csv_row_def)
  next
    case False
    with "1.prems" show ?thesis
      by (subst handle_Sensor_loop.simps) simp
  qed
qed

lemma handle_Sensor_eq:
  "handle_Sensor s =
     send 404 ''text/plain''
       (''Fine Voltage, Coarse Voltage\<newline>'' @
        concat (replicate 20 (csv_row (get (v_fine s)) (get (v_coarse s))))) s"
  by (simp add: handle_Sensor_def handle_Sensor_loop_rows)

lemma digit_not_newline: "d < 10 \<Longrightarrow> digit d \<noteq> CHR 0x0A"
proof -
  assume "d < 10"
  then have "d \<in> {0, 1, 2, 3, 4, 5, 6, 7, 8, 9}" by auto
  then show ?thesis by (auto simp: digit_def)
qed

lemma utoa_no_newline: "CHR 0x0A \<notin> set (utoa n)"
proof (induction n rule: utoa.induct)
  case (1 n)
  show ?case
  proof (cases "n < 10")
    case True
    then show ?thesis
      using digit_not_newline [of n] by (subst utoa.simps) auto
  next
    case False
    have "n mod 10 < 10" by simp
    with False "1.IH" show ?thesis
      using digit_not_newline [of "n mod 10"] by (subst utoa.simps) auto
  qed
qed

lemma line_count_append: "line_count (xs @ ys) = line_count xs + line_count ys"
  by (simp add: line_count_def)

lemma line_count_no_newline: "CHR 0x0A \<notin> set xs \<Longrightarrow> line_count xs = 0"
  by (induction xs) (auto simp: line_count_def)

lemma line_count_Nil: "line_count [] = 0"
  by (simp add: line_count_def)

lemma line_count_Cons:
  "line_count (c # cs) = (if c = CHR 0x0A then 1 else 0) + line_count cs"
  by (simp add: line_count_def)

lemma line_count_csv_row: "line_count (csv_row f c) = 1"
  by (simp add: csv_row_def String_uchar_def line_count_append line_count_Cons
      line_count_Nil line_count_no_newline utoa_no_newline)

lemma line_count_rows: "line_count (concat (replicate n (csv_row f c))) = n"
  by (induction n) (simp_all add: line_count_append line_count_csv_row line_count_Nil)

lemma routes_installed_init:
  "handlers (server s) = [] \<Longrightarrow> routes_installed (task_webserver_init s)"
  by (simp add: routes_installed_def task_webserver_init_def on_def onNotFound_def
      begin_server_def Serial_println_def Serial_print_def)

lemma csv_row_0_0: "csv_row 0 0 = ''0,0\<newline>''"
  by (simp add: csv_row_def String_uchar_def utoa.simps digit_def)

text \<open>
  C1. With the routes installed, a request for the path \<^verbatim>\<open>/csv\<close> is answered by
  \<^verbatim>\<open>handle_Sensor\<close>: status 404, content type \<^verbatim>\<open>text/plain\<close>, and a body made of the
  header line \<^verbatim>\<open>Fine Voltage, Coarse Voltage\<close> and twenty data rows, each the fine
  cell's value, a comma, the coarse cell's value and a line feed; 21 lines in all.
  Nothing else in the state changes.
\<close>

theorem csv_response:
  assumes "routes_installed s" and "uri req = ''/csv''"
  shows "task_webserver_turn (Some req) s =
           send 404 ''text/plain''
             (''Fine Voltage, Coarse Voltage\<newline>'' @
              concat (replicate 20 (csv_row (get (v_fine s)) (get (v_coarse s))))) s
         \<and> csv_row (get (v_fine s)) (get (v_coarse s)) =
             String_uchar (get (v_fine s)) @ '','' @ String_uchar (get (v_coarse s)) @ ''\<newline>''
         \<and> line_count (''Fine Voltage, Coarse Voltage\<newline>'' @
              concat (replicate 20 (csv_row (get (v_fine s)) (get (v_coarse s))))) = 21"
proof -
  have "task_webserver_turn (Some req) s = handle_Sensor s"
    using assms by (simp add: task_webserver_turn_def handleClient_def routes_installed_def)
  moreover have "line_count ''Fine Voltage, Coarse Voltage\<newline>'' = 1"
    by (simp add: line_count_def)
  moreover have "line_count (''Fine Voltage, Coarse Voltage\<newline>'' @
      concat (replicate 20 (csv_row (get (v_fine s)) (get (v_coarse s))))) = 21"
    unfolding line_count_append line_count_rows calculation(2) by simp
  ultimately show ?thesis
    by (simp only: handle_Sensor_eq csv_row_def simp_thms)
qed

theorem csv_response_witness:
  "task_webserver_turn (Some \<lparr>uri = ''/csv'', client = ''1''\<rparr>) (task_webserver_init initial_system) =
     send 404 ''text/plain''
       (''Fine Voltage, Coarse Voltage\<newline>'' @ concat (replicate 20 ''0,0\<newline>''))
       (task_webserver_init initial_system)"
proof -
  have r: "routes_installed (task_webserver_init initial_system)"
    by (rule routes_installed_init) (simp add: initial_system_def)
  have c: "get (v_fine (task_webserver_init initial_system)) = 0"
          "get (v_coarse (task_webserver_init initial_system)) = 0"
    by (simp_all add: task_webserver_init_def on_def onNotFound_def
      begin_server_def Serial_println_def Serial_print_def initial_system_def)
  show ?thesis
    using csv_response [OF r, of "\<lparr>uri = ''/csv'', client = ''1''\<rparr>"]
    by (simp add: c csv_row_0_0)
qed

subsection \<open>The error page\<close>

text \<open>
  C7. With the routes installed, a request for any path other than \<^verbatim>\<open>/\<close> and
  \<^verbatim>\<open>/csv\<close> is answered with status 404, content type \<^verbatim>\<open>text/plain\<close> and the body
  \<^verbatim>\<open>Not found\<close>.
\<close>

theorem not_found_response:
  assumes "routes_installed s" and "uri req \<noteq> ''/''" and "uri req \<noteq> ''/csv''"
  shows "task_webserver_turn (Some req) s = send 404 ''text/plain'' ''Not found'' s"
  using assms
  by (simp add: task_webserver_turn_def handleClient_def routes_installed_def handle_NotFound_def)

theorem not_found_response_witness:
  "task_webserver_turn (Some \<lparr>uri = ''/no_such_page'', client = ''1''\<rparr>)
       (task_webserver_init initial_system) =
     send 404 ''text/plain'' ''Not found'' (task_webserver_init initial_system)"
proof -
  have r: "routes_installed (task_webserver_init initial_system)"
    by (rule routes_installed_init) (simp add: initial_system_def)
  show ?thesis
    using not_found_response [OF r, of "\<lparr>uri = ''/no_such_page'', client = ''1''\<rparr>"]
    by simp
qed

subsection \<open>The landing page\<close>

lemma document_root_page_eq:
  \<open>document_root_page =
     ''<!DOCTYPE html> <html>\<newline>'' @
     ''<head><meta name="viewport" content="width=device-width, initial-scale=1.0, user-scalable=no">\<newline>'' @
     ''<title> ESP32 Web Server Test</title>\<newline>'' @
     ''<style>html { font-family: Helvetica; display: inline-block; margin: 0px auto; text-align: center;}\<newline>'' @
     ''body{margin-top: 50px;} h1 {color: #4444AA;margin: 50px auto 30px;}\<newline>'' @
     ''p {font-size: 24px;color: #222222;margin-bottom: 10px;}\<newline>'' @
     ''</style>\<newline></head>\<newline>'' @
     ''<body>\<newline><div id="webpage">\<newline>'' @
     ''<h1>Oil Debri Testing Page</h1>\<newline>'' @
     ''<p><p> <a href="/csv">Debri Test Data</a>\<newline>'' @
     ''</div>\<newline></body>\<newline></html>\<newline>''\<close>
  by (simp add: document_root_page_def HTML_header_def)

lemma sublist_mid: "ys = ps @ xs @ ss \<Longrightarrow> sublist xs ys"
  by (auto simp: sublist_def)

lemma page_meta: \<open>sublist ''<meta name="viewport"'' document_root_page\<close>
  by (rule sublist_mid [where ps = "''<!DOCTYPE html> <html>\<newline><head>''"])
     (simp add: document_root_page_eq)

lemma routes_installed_send: "routes_installed (send c ty b s) = routes_installed s"
  by (simp add: routes_installed_def send_def)

lemma routes_installed_println: "routes_installed (Serial_println t s) = routes_installed s"
  by (simp add: routes_installed_def Serial_println_def Serial_print_def)

lemma document_root_turn:
  assumes "routes_installed s" and "uri req = ''/''"
  shows "task_webserver_turn (Some req) s =
           send 200 ''text/html'' document_root_page
             (Serial_println (''HTTP request from client #'' @ client req) s)"
  using assms
  by (simp add: task_webserver_turn_def handleClient_def routes_installed_def
      handle_DocumentRoot_def)

lemma last_sent_send: "last (sent (server (send c ty b s))) = \<lparr>code = c, content_type = ty, content = b\<rparr>"
  by (simp add: send_def)

lemma routes_installed_turn_root:
  assumes "routes_installed s" and "uri req = ''/''"
  shows "routes_installed (task_webserver_turn (Some req) s)"
  using assms
  by (simp add: document_root_turn routes_installed_send routes_installed_println)

lemma routes_installed_cells:
  "routes_installed (s\<lparr>v_fine := f, v_coarse := c\<rparr>) = routes_installed s"
  by (simp add: routes_installed_def)

text \<open>
  C6. With the routes installed, a request for the path \<^verbatim>\<open>/\<close> is answered with
  status 200 and content type \<^verbatim>\<open>text/html\<close>. The body is one fixed text: it starts
  with the HTML5 document type and contains the viewport meta tag, a style block, the
  title, the heading and the link to \<^verbatim>\<open>/csv\<close>. It is the same whatever the two cells
  hold, and a second request for \<^verbatim>\<open>/\<close> gets the same response as the first.
\<close>

theorem landing_response:
  assumes "routes_installed s" and "uri req = ''/''" and "uri req' = ''/''"
  shows \<open>task_webserver_turn (Some req) s =
           send 200 ''text/html'' document_root_page
             (Serial_println (''HTTP request from client #'' @ client req) s)
         \<and> prefix ''<!DOCTYPE html>'' document_root_page
         \<and> sublist ''<meta name="viewport"'' document_root_page
         \<and> sublist ''<style>'' document_root_page
         \<and> sublist ''</style>'' document_root_page
         \<and> sublist ''<title> ESP32 Web Server Test</title>'' document_root_page
         \<and> sublist ''<h1>Oil Debri Testing Page</h1>'' document_root_page
         \<and> sublist ''<a href="/csv">Debri Test Data</a>'' document_root_page
         \<and> last (sent (server (task_webserver_turn (Some req) (s\<lparr>v_fine := f, v_coarse := c\<rparr>)))) =
             last (sent (server (task_webserver_turn (Some req) s)))
         \<and> last (sent (server (task_webserver_turn (Some req')
                                 (task_webserver_turn (Some req) s)))) =
             last (sent (server (task_webserver_turn (Some req) s)))\<close>
proof -
  have 1: "task_webserver_turn (Some req) s =
           send 200 ''text/html'' document_root_page
             (Serial_println (''HTTP request from client #'' @ client req) s)"
    using assms(1,2) by (rule document_root_turn)
  have 2: "prefix ''<!DOCTYPE html>'' document_root_page"
    by (simp add: document_root_page_eq)
  have 3: \<open>sublist ''<style>'' document_root_page\<close>
    by (rule sublist_mid [where ps = \<open>''<!DOCTYPE html> <html>\<newline><head><meta name="viewport" content="width=device-width, initial-scale=1.0, user-scalable=no">\<newline><title> ESP32 Web Server Test</title>\<newline>''\<close>])
       (simp add: document_root_page_eq)
  have 4: \<open>sublist ''</style>'' document_root_page\<close>
    by (rule sublist_mid [where ss = \<open>''\<newline></head>\<newline><body>\<newline><div id="webpage">\<newline><h1>Oil Debri Testing Page</h1>\<newline><p><p> <a href="/csv">Debri Test Data</a>\<newline></div>\<newline></body>\<newline></html>\<newline>''\<close>])
       (simp add: document_root_page_eq)
  have 5: \<open>sublist ''<title> ESP32 Web Server Test</title>'' document_root_page\<close>
    by (rule sublist_mid [where ps = \<open>''<!DOCTYPE html> <html>\<newline><head><meta name="viewport" content="width=device-width, initial-scale=1.0, user-scalable=no">\<newline>''\<close>])
       (simp add: document_root_page_eq)
  have 6: \<open>sublist ''<h1>Oil Debri Testing Page</h1>'' document_root_page\<close>
    by (rule sublist_mid [where ss = \<open>''\<newline><p><p> <a href="/csv">Debri Test Data</a>\<newline></div>\<newline></body>\<newline></html>\<newline>''\<close>])
       (simp add: document_root_page_eq)
  have 7: \<open>sublist ''<a href="/csv">Debri Test Data</a>'' document_root_page\<close>
    by (rule sublist_mid [where ss = \<open>''\<newline></div>\<newline></body>\<newline></html>\<newline>''\<close>])
       (simp add: document_root_page_eq)
  have 8: "last (sent (server (task_webserver_turn (Some req) (s\<lparr>v_fine := f, v_coarse := c\<rparr>)))) =
        last (sent (server (task_webserver_turn (Some req) s)))"
    using assms(1,2)
    by (simp add: document_root_turn routes_installed_cells last_sent_send)
  have "routes_installed (task_webserver_turn (Some req) s)"
    using assms(1,2) by (rule routes_installed_turn_root)
  then have 9: "last (sent (server (task_webserver_turn (Some req')
                                 (task_webserver_turn (Some req) s)))) =
             last (sent (server (task_webserver_turn (Some req) s)))"
    using assms
    by (simp add: document_root_turn [of "task_webserver_turn (Some req) s" req'] last_sent_send)
       (simp add: document_root_turn last_sent_send)
  from 1 2 page_meta 3 4 5 6 7 8 9 show ?thesis by blast
qed

theorem landing_response_witness:
  "task_webserver_turn (Some \<lparr>uri = ''/'', client = ''1''\<rparr>) (task_webserver_init initial_system) =
     send 200 ''text/html'' document_root_page
       (Serial_println ''HTTP request from client #1'' (task_webserver_init initial_system))"
proof -
  have r: "routes_installed (task_webserver_init initial_system)"
    by (rule routes_installed_init) (simp add: initial_system_def)
  show ?thesis
    using landing_response [OF r, of "\<lparr>uri = ''/'', client = ''1''\<rparr>"
        "\<lparr>uri = ''/'', client = ''1''\<rparr>"]
    by simp
qed

subsection \<open>Start-up\<close>

lemma wait_for_Serial_returns: "ready (n + k) \<Longrightarrow> \<exists>m. wait_for_Serial ready n = Some m"
proof (induction k arbitrary: n)
  case 0
  then show ?case by (subst wait_for_Serial.simps) simp
next
  case (Suc k)
  from Suc.prems have "ready ((n + 1) + k)" by simp
  then obtain m where "wait_for_Serial ready (n + 1) = Some m"
    using Suc.IH by blast
  then show ?case by (subst wait_for_Serial.simps) simp
qed

lemma setup_fn_returns: "ready k \<Longrightarrow> \<exists>s'. setup_fn ready s = Some s'"
  using wait_for_Serial_returns [of ready 0 k]
  by (auto simp: setup_fn_def)

lemma wait_for_Serial_2: "wait_for_Serial (\<lambda>n. 2 \<le> n) 0 = Some 2"
  by (simp add: wait_for_Serial.simps)

text \<open>
  C9. When \<^verbatim>\<open>setup\<close> returns, having started with no task, exactly two tasks have
  been created and are ready to run: the web-server task and the sensor task, and the
  sensor task's priority is strictly greater than the web-server task's. (By
  \<open>setup_fn_returns\<close> it does return as soon as the serial port comes up.)
\<close>

theorem setup_tasks:
  assumes "setup_fn ready s0 = Some s" and "tasks s0 = []"
  shows "tasks s =
           [(Task_webserver, \<lparr>task_name = ''Web Server'', stack_depth = 8192, priority = 2\<rparr>, Ready),
            (Task_sensor, \<lparr>task_name = ''Sensor'', stack_depth = 4000, priority = 4\<rparr>, Ready)]
         \<and> length (tasks s) = 2
         \<and> (\<exists>webserver sensor.
              tasks s = [(Task_webserver, webserver, Ready), (Task_sensor, sensor, Ready)]
              \<and> priority webserver < priority sensor)"
  using assms
  by (auto simp: setup_fn_def setup_wifi_def pinMode_def xTaskCreate_def
      Serial_println_def Serial_print_def Let_def split: option.splits)

theorem setup_tasks_witness:
  "\<exists>s. setup_fn (\<lambda>n. 2 \<le> n) initial_system = Some s
       \<and> tasks s =
           [(Task_webserver, \<lparr>task_name = ''Web Server'', stack_depth = 8192, priority = 2\<rparr>, Ready),
            (Task_sensor, \<lparr>task_name = ''Sensor'', stack_depth = 4000, priority = 4\<rparr>, Ready)]
       \<and> length (tasks s) = 2"
proof -
  obtain s where s: "setup_fn (\<lambda>n. 2 \<le> n) initial_system = Some s"
    by (simp add: setup_fn_def wait_for_Serial_2)
  have t: "tasks initial_system = []"
    by (simp add: initial_system_def)
  from s setup_tasks [OF s t] show ?thesis by blast
qed

subsection \<open>Shared cells\<close>

lemma get_share_run: "get (share_run ops c) \<in> insert (get c) (set (put_values ops))"
proof (induction ops arbitrary: c)
  case Nil
  then show ?case by simp
next
  case (Cons x ops)
  show ?case
  proof (cases x)
    case (Put v)
    have "get (put v c) = v" by (cases c) simp
    with Cons.IH [of "put v c"] Put show ?thesis by auto
  next
    case Get
    with Cons.IH [of c] show ?thesis by auto
  qed
qed

lemma get_share_run_last: "get (share_run ops c) = last (get c # put_values ops)"
proof (induction ops arbitrary: c)
  case Nil
  then show ?case by simp
next
  case (Cons x ops)
  show ?case
  proof (cases x)
    case (Put v)
    have "get (put v c) = v" by (cases c) simp
    with Cons.IH [of "put v c"] Put show ?thesis by simp
  next
    case Get
    with Cons.IH [of c] show ?thesis by simp
  qed
qed

lemma share_returns_append:
  "share_returns (xs @ ys) c = share_returns xs c @ share_returns ys (share_run xs c)"
proof (induction xs arbitrary: c)
  case Nil
  then show ?case by simp
next
  case (Cons x xs)
  then show ?case by (cases x) simp_all
qed

lemma put_values_append: "put_values (xs @ ys) = put_values xs @ put_values ys"
proof (induction xs)
  case Nil
  then show ?case by simp
next
  case (Cons x xs)
  then show ?case by (cases x) simp_all
qed

lemma put_values_shuffles:
  "ops \<in> shuffles ops1 ops2 \<Longrightarrow> set (put_values ops) = set (put_values ops1) \<union> set (put_values ops2)"
proof (induction ops1 ops2 arbitrary: ops rule: shuffles.induct)
  case (1 ys)
  then show ?case by simp
next
  case (2 xs)
  then show ?case by simp
next
  case (3 x xs y ys)
  from "3.prems" consider
      (l) zs where "ops = x # zs" "zs \<in> shuffles xs (y # ys)"
    | (r) zs where "ops = y # zs" "zs \<in> shuffles (x # xs) ys"
    by auto
  then show ?case
  proof cases
    case l
    with "3.IH"(1) [of zs] show ?thesis by (cases x) auto
  next
    case r
    with "3.IH"(2) [of zs] show ?thesis by (cases y) auto
  qed
qed

text \<open>
  C8. Let the calls that two tasks make on one cell be interleaved in any way, and
  take any \<^verbatim>\<open>get\<close> of the interleaved history. The value it returns is the value
  supplied to the last \<^verbatim>\<open>put\<close> before it, or the cell's initial value when there is
  none: always the initial value or a value that one of the two tasks supplied to an
  earlier \<^verbatim>\<open>put\<close>, never anything else.
\<close>

theorem share_get_initial_or_put:
  assumes "ops \<in> shuffles ops1 ops2" and "ops = pre @ Get # post"
  shows "share_returns ops (Share init) ! length (share_returns pre (Share init)) =
           get (share_run pre (Share init))
         \<and> get (share_run pre (Share init)) \<in> insert init (set (put_values pre))
         \<and> get (share_run pre (Share init)) = last (init # put_values pre)
         \<and> set (put_values pre) \<subseteq> set (put_values ops1) \<union> set (put_values ops2)"
proof -
  have 1: "share_returns ops (Share init) ! length (share_returns pre (Share init)) =
      get (share_run pre (Share init))"
    by (simp add: assms(2) share_returns_append)
  have 2: "get (share_run pre (Share init)) \<in> insert init (set (put_values pre))"
    using get_share_run [of pre "Share init"] by simp
  have 3: "get (share_run pre (Share init)) = last (init # put_values pre)"
    using get_share_run_last [of pre "Share init"] by simp
  have "set (put_values pre) \<subseteq> set (put_values ops)"
    by (simp add: assms(2) put_values_append)
  then have 4: "set (put_values pre) \<subseteq> set (put_values ops1) \<union> set (put_values ops2)"
    by (simp only: put_values_shuffles [OF assms(1)])
  from 1 2 3 4 show ?thesis by blast
qed

theorem share_get_initial_or_put_witness:
  "[Put 2, Get, Put 3, Get] \<in> shuffles [Put 2, Put (3 :: uint8_t)] [Get, Get]
   \<and> share_returns [Put 2, Get, Put 3, Get] (Share (0 :: uint8_t)) ! 1 = 3
   \<and> get (share_run [Put 2, Get, Put 3] (Share (0 :: uint8_t))) = 3
   \<and> get (share_run [Put 2, Get, Put 3] (Share (0 :: uint8_t))) \<in> {0, 2, 3}"
proof -
  have m: "[Put 2, Get, Put 3, Get] \<in> shuffles [Put 2, Put (3 :: uint8_t)] [Get, Get]"
    by (simp add: Cons_in_shuffles_iff)
  have d: "[Put 2, Get, Put 3, Get] = [Put 2, Get, Put (3 :: uint8_t)] @ Get # []"
    by simp
  show ?thesis
    using m share_get_initial_or_put [OF m d, of 0] by simp
qed

subsection \<open>Rounding\<close>

lemma bitlen_bounds:
  "0 < a \<Longrightarrow> 1 \<le> bitlen a \<and> 2 ^ nat (bitlen a - 1) \<le> a \<and> a < 2 ^ nat (bitlen a)"
proof (induction a rule: bitlen.induct)
  case (1 a)
  show ?case
  proof (cases "a = 1")
    case True
    have "bitlen 1 = 1"
      by (simp add: bitlen.simps [of 1] bitlen.simps [of 0])
    with True show ?thesis by simp
  next
    case False
    with "1.prems" have pos: "0 < a div 2" by simp
    from "1.IH" [OF "1.prems" pos]
    have ih: "1 \<le> bitlen (a div 2)" "2 ^ nat (bitlen (a div 2) - 1) \<le> a div 2"
      "a div 2 < 2 ^ nat (bitlen (a div 2))"
      by simp_all
    have b: "bitlen a = 1 + bitlen (a div 2)"
      using "1.prems" by (subst bitlen.simps) simp
    have n1: "nat (bitlen a - 1) = Suc (nat (bitlen (a div 2) - 1))"
      using ih(1) b by simp
    have n2: "nat (bitlen a) = Suc (nat (bitlen (a div 2)))"
      using ih(1) b by simp
    have l: "2 * 2 ^ nat (bitlen (a div 2) - 1) \<le> a"
      using ih(2) by linarith
    have u: "a < 2 * 2 ^ nat (bitlen (a div 2))"
      using ih(3) by linarith
    have A: "2 ^ nat (bitlen a - 1) \<le> a"
      unfolding n1 power_Suc using l .
    have B: "a < 2 ^ nat (bitlen a)"
      unfolding n2 power_Suc using u .
    have C: "1 \<le> bitlen a"
      using b ih(1) by linarith
    from A B C show ?thesis by blast
  qed
qed

lemma quotient_of_pos:
  assumes "0 < (x::rat)" and "quotient_of x = (a, b)"
  shows "0 < a" "0 < b" "x = of_int a / of_int b"
proof -
  show b: "0 < b" using assms(2) by (rule quotient_of_denom_pos)
  show x: "x = of_int a / of_int b" using assms(2) by (rule quotient_of_div)
  show "0 < a"
    using assms(1) b x by (simp add: zero_less_divide_iff)
qed

lemma exponent_bounds:
  assumes "x \<noteq> 0"
  shows "2 powi exponent x \<le> \<bar>x\<bar>" and "\<bar>x\<bar> < 2 powi (exponent x + 1)"
proof -
  obtain a b where q: "quotient_of \<bar>x\<bar> = (a, b)" by force
  from assms have "0 < \<bar>x\<bar>" by simp
  from quotient_of_pos [OF this q] have a: "0 < a" and b: "0 < b"
    and x: "\<bar>x\<bar> = of_int a / of_int b" by simp_all
  define la where "la = bitlen a"
  define lb where "lb = bitlen b"
  from bitlen_bounds [OF a] have la: "1 \<le> la" "2 ^ nat (la - 1) \<le> a" "a < 2 ^ nat la"
    by (simp_all add: la_def)
  from bitlen_bounds [OF b] have lb: "1 \<le> lb" "2 ^ nat (lb - 1) \<le> b" "b < 2 ^ nat lb"
    by (simp_all add: lb_def)
  have ra: "(2::rat) powi (la - 1) \<le> of_int a" "of_int a < (2::rat) powi la"
  proof -
    have "(of_int (2 ^ nat (la - 1)) :: rat) \<le> of_int a"
      using la(2) by (simp only: of_int_le_iff)
    then show "(2::rat) powi (la - 1) \<le> of_int a"
      using la(1) by (simp add: power_int_def)
    have "(of_int a :: rat) < of_int (2 ^ nat la)"
      using la(3) by (simp only: of_int_less_iff)
    then show "of_int a < (2::rat) powi la"
      using la(1) by (simp add: power_int_def)
  qed
  have rb: "(2::rat) powi (lb - 1) \<le> of_int b" "of_int b < (2::rat) powi lb"
  proof -
    have "(of_int (2 ^ nat (lb - 1)) :: rat) \<le> of_int b"
      using lb(2) by (simp only: of_int_le_iff)
    then show "(2::rat) powi (lb - 1) \<le> of_int b"
      using lb(1) by (simp add: power_int_def)
    have "(of_int b :: rat) < of_int (2 ^ nat lb)"
      using lb(3) by (simp only: of_int_less_iff)
    then show "of_int b < (2::rat) powi lb"
      using lb(1) by (simp add: power_int_def)
  qed
  have bpos: "(0::rat) < of_int b" using b by simp
  have lower: "(2::rat) powi (la - lb - 1) \<le> \<bar>x\<bar>"
  proof -
    have "(2::rat) powi (la - lb - 1) * of_int b \<le> 2 powi (la - lb - 1) * 2 powi lb"
      using rb(2) by (intro mult_left_mono) simp_all
    also have "\<dots> = 2 powi (la - 1)"
      by (simp add: power_int_add [symmetric])
    also have "\<dots> \<le> of_int a" by (rule ra(1))
    finally show ?thesis
      using bpos by (simp add: x pos_le_divide_eq)
  qed
  have upper: "\<bar>x\<bar> < (2::rat) powi (la - lb + 1)"
  proof -
    have "of_int a < (2::rat) powi la" by (rule ra(2))
    also have "\<dots> = 2 powi (la - lb + 1) * 2 powi (lb - 1)"
      by (simp add: power_int_add [symmetric])
    also have "\<dots> \<le> 2 powi (la - lb + 1) * of_int b"
      using rb(1) by (intro mult_left_mono) simp_all
    finally show ?thesis
      using bpos by (simp add: x pos_divide_less_eq)
  qed
  have e: "exponent x = (if 2 powi (la - lb) \<le> \<bar>x\<bar> then la - lb else la - lb - 1)"
    by (simp add: exponent_def q la_def lb_def Let_def)
  show "2 powi exponent x \<le> \<bar>x\<bar>"
    using lower by (simp add: e)
  show "\<bar>x\<bar> < 2 powi (exponent x + 1)"
    using upper by (simp add: e not_le)
qed

lemma pow2_less_imp: "(2::rat) powi m < 2 powi n \<Longrightarrow> m < n"
proof (rule ccontr)
  assume less: "(2::rat) powi m < 2 powi n" and "\<not> m < n"
  then have "n \<le> m" by simp
  then have "(2::rat) powi n \<le> 2 powi m"
    by (rule power_int_increasing) simp
  with less show False by linarith
qed

lemma exponent_unique:
  assumes "2 powi e \<le> \<bar>x\<bar>" and "\<bar>x\<bar> < 2 powi (e + 1)"
  shows "exponent x = e"
proof -
  have "x \<noteq> 0"
  proof
    assume "x = 0"
    with assms(1) have "(2::rat) powi e \<le> 0" by simp
    moreover have "(0::rat) < 2 powi e" by (rule zero_less_power_int) simp
    ultimately show False by linarith
  qed
  note b = exponent_bounds [OF this]
  have "(2::rat) powi e < 2 powi (exponent x + 1)"
    using assms(1) b(2) by simp
  then have 1: "e < exponent x + 1"
    by (rule pow2_less_imp)
  have "(2::rat) powi exponent x < 2 powi (e + 1)"
    using assms(2) b(1) by simp
  then have 2: "exponent x < e + 1"
    by (rule pow2_less_imp)
  from 1 2 show ?thesis by simp
qed

lemma nearest_even_close: "\<bar>of_int (nearest_even x) - x\<bar> \<le> 1 / 2"
proof -
  have "of_int \<lfloor>x\<rfloor> \<le> x" "x < of_int \<lfloor>x\<rfloor> + 1" by linarith+
  then show ?thesis
    by (auto simp: nearest_even_def Let_def)
qed

lemma nearest_even_of_int: "nearest_even (of_int n) = n"
  by (simp add: nearest_even_def)

lemma nearest_even_mono:
  assumes "x \<le> y"
  shows "nearest_even x \<le> nearest_even y"
proof (cases "x = y")
  case True
  then show ?thesis by simp
next
  case False
  with assms have less: "x < y" by simp
  have "of_int (nearest_even x) \<le> x + 1 / 2"
    using nearest_even_close [of x] by linarith
  moreover have "y - 1 / 2 \<le> of_int (nearest_even y)"
    using nearest_even_close [of y] by linarith
  ultimately have "(of_int (nearest_even x) :: rat) < of_int (nearest_even y) + 1"
    using less by linarith
  then have "(of_int (nearest_even x) :: rat) < of_int (nearest_even y + 1)"
    by simp
  then have "nearest_even x < nearest_even y + 1"
    by (simp only: of_int_less_iff)
  then show ?thesis by simp
qed

lemma ulp_pos: "0 < ulp p x"
  by (simp add: ulp_def)

lemma round_to_0: "round_to p 0 = 0"
  by (simp add: round_to_def)

lemma round_to_close: "\<bar>round_to p x - x\<bar> \<le> ulp p x / 2"
proof (cases "x = 0")
  case True
  then show ?thesis using ulp_pos [of p 0] by (simp add: round_to_def)
next
  case False
  let ?u = "ulp p x"
  have u: "0 < ?u" by (rule ulp_pos)
  have "\<bar>of_int (nearest_even (x / ?u)) - x / ?u\<bar> \<le> 1 / 2"
    by (rule nearest_even_close)
  then have "\<bar>of_int (nearest_even (x / ?u)) - x / ?u\<bar> * ?u \<le> 1 / 2 * ?u"
    using u by (intro mult_right_mono) simp_all
  moreover have "\<bar>of_int (nearest_even (x / ?u)) - x / ?u\<bar> * ?u =
      \<bar>of_int (nearest_even (x / ?u)) * ?u - x\<bar>"
  proof -
    have "\<bar>of_int (nearest_even (x / ?u)) - x / ?u\<bar> * ?u =
        \<bar>(of_int (nearest_even (x / ?u)) - x / ?u) * ?u\<bar>"
      using u by (simp add: abs_mult)
    also have "(of_int (nearest_even (x / ?u)) - x / ?u) * ?u =
        of_int (nearest_even (x / ?u)) * ?u - x"
      using u by (simp add: left_diff_distrib)
    finally show ?thesis .
  qed
  ultimately show ?thesis
    using False by (simp add: round_to_def)
qed

text \<open>Within one binade, for positive numbers.\<close>

lemma binade_ulp:
  shows "1 \<le> p \<Longrightarrow> (2::rat) powi exponent x = 2 ^ (p - 1) * ulp p x"
    and "(2::rat) powi (exponent x + 1) = 2 ^ p * ulp p x"
proof -
  have "(2::rat) ^ p * ulp p x = 2 powi (int p) * 2 powi (exponent x - int p + 1)"
    by (simp add: ulp_def)
  also have "\<dots> = 2 powi (int p + (exponent x - int p + 1))"
    by (rule power_int_add [symmetric]) simp
  also have "int p + (exponent x - int p + 1) = exponent x + 1" by simp
  finally show "(2::rat) powi (exponent x + 1) = 2 ^ p * ulp p x" by simp
  assume p: "1 \<le> p"
  then have "(2::rat) ^ (p - 1) = 2 powi (int p - 1)"
    by (simp add: power_int_def nat_diff_distrib')
  then have "(2::rat) ^ (p - 1) * ulp p x = 2 powi (int p - 1) * 2 powi (exponent x - int p + 1)"
    by (simp add: ulp_def)
  also have "\<dots> = 2 powi ((int p - 1) + (exponent x - int p + 1))"
    by (rule power_int_add [symmetric]) simp
  also have "(int p - 1) + (exponent x - int p + 1) = exponent x" by simp
  finally show "(2::rat) powi exponent x = 2 ^ (p - 1) * ulp p x" by simp
qed

lemma scaled_bounds:
  assumes "0 < x" and "1 \<le> p"
  shows "2 ^ (p - 1) \<le> x / ulp p x" and "x / ulp p x < 2 ^ p"
proof -
  have x: "x \<noteq> 0" "\<bar>x\<bar> = x" using assms(1) by simp_all
  note b = exponent_bounds [OF x(1), unfolded x(2)]
  have u: "0 < ulp p x" by (rule ulp_pos)
  note e = binade_ulp(1) [OF assms(2), of x]
  note e1 = binade_ulp(2) [of x p]
  show "2 ^ (p - 1) \<le> x / ulp p x"
    using b(1) u by (simp add: e pos_le_divide_eq)
  show "x / ulp p x < 2 ^ p"
    using b(2) u by (simp add: e1 pos_divide_less_eq)
qed

lemma round_to_binade:
  assumes "0 < x" and "1 \<le> p"
  shows "2 powi exponent x \<le> round_to p x" and "round_to p x \<le> 2 powi (exponent x + 1)"
proof -
  let ?u = "ulp p x"
  have u: "0 < ?u" by (rule ulp_pos)
  note s = scaled_bounds [OF assms]
  have "nearest_even (of_int (2 ^ (p - 1))) \<le> nearest_even (x / ?u)"
    using s(1) by (intro nearest_even_mono) simp
  then have "(2::int) ^ (p - 1) \<le> nearest_even (x / ?u)"
    by (simp only: nearest_even_of_int)
  then have "(of_int (2 ^ (p - 1)) :: rat) \<le> of_int (nearest_even (x / ?u))"
    by (simp only: of_int_le_iff)
  then have l: "(2::rat) ^ (p - 1) * ?u \<le> of_int (nearest_even (x / ?u)) * ?u"
    using u by (intro mult_right_mono) simp_all
  have "nearest_even (x / ?u) \<le> nearest_even (of_int (2 ^ p))"
    using s(2) by (intro nearest_even_mono) simp
  then have "nearest_even (x / ?u) \<le> (2::int) ^ p"
    by (simp only: nearest_even_of_int)
  then have "(of_int (nearest_even (x / ?u)) :: rat) \<le> of_int (2 ^ p)"
    by (simp only: of_int_le_iff)
  then have h: "of_int (nearest_even (x / ?u)) * ?u \<le> (2::rat) ^ p * ?u"
    using u by (intro mult_right_mono) simp_all
  note e = binade_ulp(1) [OF assms(2), of x]
  note e1 = binade_ulp(2) [of x p]
  have r: "round_to p x = of_int (nearest_even (x / ?u)) * ?u"
    using assms(1) by (simp add: round_to_def)
  show "2 powi exponent x \<le> round_to p x"
    using l by (simp only: e r)
  show "round_to p x \<le> 2 powi (exponent x + 1)"
    using h by (simp only: e1 r)
qed

lemma round_to_nonneg: "0 \<le> x \<Longrightarrow> 1 \<le> p \<Longrightarrow> 0 \<le> round_to p x"
proof (cases "x = 0")
  case True
  then show ?thesis by (simp add: round_to_0)
next
  case False
  assume "0 \<le> x" "1 \<le> p"
  with False have "0 < x" by simp
  from round_to_binade(1) [OF this \<open>1 \<le> p\<close>]
  have "2 powi exponent x \<le> round_to p x" .
  moreover have "(0::rat) < 2 powi exponent x" by simp
  ultimately show ?thesis by linarith
qed

lemma exponent_mono:
  assumes "0 < x" and "x \<le> y"
  shows "exponent x \<le> exponent y"
proof -
  have x: "x \<noteq> 0" "\<bar>x\<bar> = x" and y: "y \<noteq> 0" "\<bar>y\<bar> = y" using assms by simp_all
  note bx = exponent_bounds [OF x(1), unfolded x(2)]
  note by' = exponent_bounds [OF y(1), unfolded y(2)]
  have "(2::rat) powi exponent x < 2 powi (exponent y + 1)"
    using bx(1) by'(2) assms(2) by linarith
  then have "exponent x < exponent y + 1" by (rule pow2_less_imp)
  then show ?thesis by simp
qed

lemma round_to_mono_pos:
  assumes "0 < x" and "x \<le> y" and "1 \<le> p"
  shows "round_to p x \<le> round_to p y"
proof (cases "exponent x = exponent y")
  case True
  then have u: "ulp p y = ulp p x" by (simp add: ulp_def)
  have up: "0 < ulp p x" by (rule ulp_pos)
  have "x / ulp p x \<le> y / ulp p x"
    using assms(2) up by (simp add: divide_right_mono)
  then have "nearest_even (x / ulp p x) \<le> nearest_even (y / ulp p x)"
    by (rule nearest_even_mono)
  then have "(of_int (nearest_even (x / ulp p x)) :: rat) \<le> of_int (nearest_even (y / ulp p x))"
    by (simp only: of_int_le_iff)
  then have "of_int (nearest_even (x / ulp p x)) * ulp p x \<le>
      of_int (nearest_even (y / ulp p x)) * ulp p x"
    using up by (intro mult_right_mono) simp_all
  then show ?thesis
    using assms(1,2) by (simp add: round_to_def u)
next
  case False
  have y: "0 < y" using assms(1,2) by simp
  from False exponent_mono [OF assms(1,2)] have "exponent x + 1 \<le> exponent y" by simp
  then have "(2::rat) powi (exponent x + 1) \<le> 2 powi exponent y"
    by (rule power_int_increasing) simp
  with round_to_binade(2) [OF assms(1,3)] round_to_binade(1) [OF y assms(3)]
  show ?thesis by linarith
qed

lemma round_to_mono:
  assumes "0 \<le> x" and "x \<le> y" and "1 \<le> p"
  shows "round_to p x \<le> round_to p y"
proof (cases "x = 0")
  case True
  with assms round_to_nonneg [of y p] show ?thesis by (simp add: round_to_0)
next
  case False
  with assms(1) have "0 < x" by simp
  then show ?thesis using assms(2,3) by (rule round_to_mono_pos)
qed

lemma round_to_fix:
  assumes "x = of_int m * 2 powi k" and "\<bar>m\<bar> < 2 ^ p"
  shows "round_to p x = x"
proof (cases "x = 0")
  case True
  then show ?thesis by (simp add: round_to_0)
next
  case False
  let ?e = "exponent x"
  have "\<bar>x\<bar> = of_int \<bar>m\<bar> * 2 powi k"
    by (simp add: assms(1) abs_mult)
  also have "\<dots> < of_int (2 ^ p) * 2 powi k"
    using assms(2) by (intro mult_strict_right_mono) (simp_all only: of_int_less_iff, simp)
  also have "\<dots> = 2 powi (int p) * 2 powi k" by simp
  also have "\<dots> = 2 powi (int p + k)"
    by (rule power_int_add [symmetric]) simp
  finally have "\<bar>x\<bar> < 2 powi (int p + k)" .
  with exponent_bounds(1) [OF False] have "(2::rat) powi ?e < 2 powi (int p + k)"
    by linarith
  then have "?e < int p + k" by (rule pow2_less_imp)
  then have j: "0 \<le> k - (?e - int p + 1)" by simp
  define j where "j = nat (k - (?e - int p + 1))"
  have k: "k = int j + (?e - int p + 1)"
    using \<open>0 \<le> k - (?e - int p + 1)\<close> by (simp add: j_def)
  define u where "u = ulp p x"
  have "(2::rat) powi k = 2 powi (int j) * 2 powi (?e - int p + 1)"
    by (subst k, rule power_int_add) simp
  then have pk: "(2::rat) powi k = 2 ^ j * u"
    by (simp add: ulp_def u_def)
  have u: "u \<noteq> 0" using ulp_pos [of p x] by (simp add: u_def)
  have xu: "x = of_int (m * 2 ^ j) * u"
    by (simp add: assms(1) pk)
  then have "x / u = of_int (m * 2 ^ j)"
    using u by simp
  then have "nearest_even (x / u) = m * 2 ^ j"
    by (simp only: nearest_even_of_int)
  then have "round_to p x = of_int (m * 2 ^ j) * u"
    using False by (simp add: round_to_def u_def)
  with xu show ?thesis by simp
qed

lemma count_nonneg: "(0::rat) \<le> of_int (uint (raw :: uint16_t))"
  by (simp only: of_int_0_le_iff uint_ge_0)

lemma double_of_int_exact: "\<bar>n\<bar> < 2 ^ 53 \<Longrightarrow> double_of_int n = of_int n"
  unfolding double_of_int_def by (rule round_to_fix [where m = n and k = 0]) simp_all

lemma double_div_5_4095:
  "double_div (double_of_int 5) 4095 = 1407718564843525 / 1152921504606846976"
  by code_simp

lemma uint_uint16_bound: "\<bar>uint (raw :: uint16_t)\<bar> < 2 ^ 53"
proof -
  have "uint raw < 2 ^ 16" using uint_bounded [of raw] by simp
  moreover have "0 \<le> uint raw" by simp
  ultimately show ?thesis by simp
qed

lemma voltage_eq:
  "voltage raw =
     round_to 24 (round_to 53 (of_int (uint raw) * (1407718564843525 / 1152921504606846976)))"
  by (simp only: voltage_def float_of_double_def double_mul_def double_div_5_4095
      double_of_int_exact [OF uint_uint16_bound])

lemma voltage_nonneg: "0 \<le> voltage raw"
  unfolding voltage_eq
  by (intro round_to_nonneg mult_nonneg_nonneg count_nonneg) simp_all

lemma voltage_mono:
  assumes "raw \<le> raw'"
  shows "voltage raw \<le> voltage raw'"
proof -
  have "uint raw \<le> uint raw'"
    using assms by (simp add: word_le_def)
  then have "(of_int (uint raw) :: rat) \<le> of_int (uint raw')"
    by (simp only: of_int_le_iff)
  then have "(of_int (uint raw) :: rat) * (1407718564843525 / 1152921504606846976) \<le>
      of_int (uint raw') * (1407718564843525 / 1152921504606846976)"
    by (intro mult_right_mono) simp_all
  then show ?thesis
    unfolding voltage_eq
    by (intro round_to_mono round_to_nonneg mult_nonneg_nonneg count_nonneg) simp_all
qed

lemma voltage_0: "voltage 0 = 0"
  by code_simp

lemma voltage_4095: "voltage 4095 = 5"
  by code_simp

lemma voltage_le_5: "raw \<le> 4095 \<Longrightarrow> voltage raw \<le> 5"
  using voltage_mono [of raw 4095] by (simp add: voltage_4095)

lemma truncate_nonneg: "0 \<le> x \<Longrightarrow> truncate x = \<lfloor>x\<rfloor>"
  by (simp add: truncate_def)

lemma uint8_of_float_voltage:
  assumes "raw \<le> 4095"
  shows "uint (uint8_of_float (voltage raw)) = \<lfloor>voltage raw\<rfloor>"
    and "uint8_of_float (voltage raw) \<le> 5"
proof -
  have f: "0 \<le> \<lfloor>voltage raw\<rfloor>" "\<lfloor>voltage raw\<rfloor> \<le> 5"
    using voltage_nonneg [of raw] voltage_le_5 [OF assms] by (simp_all add: floor_le_iff le_floor_iff)
  have e: "uint8_of_float (voltage raw) = word_of_int \<lfloor>voltage raw\<rfloor>"
    by (simp add: uint8_of_float_def truncate_nonneg voltage_nonneg)
  show u: "uint (uint8_of_float (voltage raw)) = \<lfloor>voltage raw\<rfloor>"
    using f by (simp add: e uint_word_of_int take_bit_int_eq_self)
  show "uint8_of_float (voltage raw) \<le> 5"
    using f u by (simp add: word_le_def)
qed

subsection \<open>The sensor task\<close>

lemma get_put: "get (put v c) = v"
  by (cases c) simp
lemma task_sensor_turn_cells:
  "get (v_fine (task_sensor_turn pf raw1 raw2 s)) = uint8_of_float (voltage raw1)"
  "get (v_coarse (task_sensor_turn pf raw1 raw2 s)) = uint8_of_float (voltage raw2)"
  by (simp_all add: task_sensor_turn_def Let_def Serial_println_def Serial_print_def get_put)

lemma task_sensor_turn_Serial:
  "Serial (task_sensor_turn pf raw1 raw2 s) =
     Serial s @ '' Fine Wear Voltage: '' @ pf (voltage raw1) @ ''V'' @
     '' Coarse Wear Voltage: '' @ pf (voltage raw2) @ ''V'' @
     '' Sum: '' @ pf (float_add (voltage raw1) (voltage raw2)) @ ''V'' @ [CHR 0x0D, CHR 0x0A]"
  by (simp add: task_sensor_turn_def Let_def Serial_println_def Serial_print_def)

lemma two_decimals_no_newline: "CHR 0x0A \<notin> set (two_decimals v)"
  by (simp add: two_decimals_def Let_def utoa_no_newline)

lemma stored_2000: "uint8_of_float (voltage 2000) = 2"
  by code_simp

lemma stored_3000: "uint8_of_float (voltage 3000) = 3"
  by code_simp

lemma String_uchar_2: "String_uchar 2 = ''2''"
  by (simp add: String_uchar_def utoa.simps digit_def)

lemma String_uchar_3: "String_uchar 3 = ''3''"
  by (simp add: String_uchar_def utoa.simps digit_def)

text \<open>
  C5. A turn of the sensor loop prints exactly one line on the serial console: a
  blank, then \<^verbatim>\<open>Fine Wear Voltage: <v1>V Coarse Wear Voltage: <v2>V Sum: <v1+v2>V\<close>,
  then the end of the line, where \<^verbatim>\<open><v1>\<close> and \<^verbatim>\<open><v2>\<close> are the two converted
  voltages as \<^verbatim>\<open>Serial.print\<close> writes them and \<^verbatim>\<open><v1+v2>\<close> is their sum, added as
  \<^verbatim>\<open>float\<close>s (the exact sum rounded to the nearest \<^verbatim>\<open>float\<close>, so within half a unit
  in the last place of it) and printed likewise. (\<^verbatim>\<open>Serial.print\<close> writes no line
  feed for a number.)
\<close>

theorem sensor_debug_line:
  assumes "\<And>v. CHR 0x0A \<notin> set (print_float v)"
  shows "printed s (task_sensor_turn print_float raw1 raw2 s) =
           '' '' @ ''Fine Wear Voltage: '' @ print_float (voltage raw1) @
           ''V Coarse Wear Voltage: '' @ print_float (voltage raw2) @
           ''V Sum: '' @ print_float (round_to 24 (voltage raw1 + voltage raw2)) @ ''V'' @
           [CHR 0x0D, CHR 0x0A]
         \<and> \<bar>round_to 24 (voltage raw1 + voltage raw2) - (voltage raw1 + voltage raw2)\<bar>
             \<le> ulp 24 (voltage raw1 + voltage raw2) / 2
         \<and> line_count (printed s (task_sensor_turn print_float raw1 raw2 s)) = 1"
proof -
  have p: "printed s (task_sensor_turn print_float raw1 raw2 s) =
           '' '' @ ''Fine Wear Voltage: '' @ print_float (voltage raw1) @
           ''V Coarse Wear Voltage: '' @ print_float (voltage raw2) @
           ''V Sum: '' @ print_float (round_to 24 (voltage raw1 + voltage raw2)) @ ''V'' @
           [CHR 0x0D, CHR 0x0A]"
    by (simp add: printed_def task_sensor_turn_Serial float_add_def)
  have "line_count (printed s (task_sensor_turn print_float raw1 raw2 s)) = 1"
    unfolding p
    by (simp add: line_count_append line_count_Cons line_count_Nil
        line_count_no_newline [OF assms])
  with p round_to_close [of 24 "voltage raw1 + voltage raw2"] show ?thesis by blast
qed

theorem sensor_debug_line_witness:
  "printed initial_system (task_sensor_turn two_decimals 2000 3000 initial_system) =
     '' Fine Wear Voltage: 2.44V Coarse Wear Voltage: 3.66V Sum: 6.11V'' @ [CHR 0x0D, CHR 0x0A]
   \<and> line_count (printed initial_system (task_sensor_turn two_decimals 2000 3000 initial_system)) = 1"
proof -
  have t: "two_decimals (voltage 2000) = ''2.44''" "two_decimals (voltage 3000) = ''3.66''"
    "two_decimals (round_to 24 (voltage 2000 + voltage 3000)) = ''6.11''"
    by code_simp+
  note line = sensor_debug_line [of two_decimals initial_system 2000 3000,
      OF two_decimals_no_newline]
  show ?thesis
    using line [THEN conjunct1] line [THEN conjunct2, THEN conjunct2]
    by (simp add: t)
qed

lemma csv_row_2_3: "csv_row 2 3 = ''2,3\<newline>''"
  by (simp add: csv_row_def String_uchar_2 String_uchar_3)

text \<open>
  C3. What a turn of the sensor loop stores in each cell is the computed \<^verbatim>\<open>float\<close>
  voltage with its fraction dropped, as an 8-bit unsigned integer. When the fine cell
  holds 2 and the coarse cell holds 3, the CSV body begins with the header line and
  \<^verbatim>\<open>2,3\<close>, \<^verbatim>\<open>2,3\<close>, and has exactly twenty data rows.
\<close>

theorem sensor_stores_truncated_voltage:
  assumes "get (v_fine s') = 2" and "get (v_coarse s') = 3"
  shows "get (v_fine (task_sensor_turn print_float raw1 raw2 s)) = word_of_int (truncate (voltage raw1))
         \<and> get (v_coarse (task_sensor_turn print_float raw1 raw2 s)) = word_of_int (truncate (voltage raw2))
         \<and> handle_Sensor s' =
             send 404 ''text/plain''
               (''Fine Voltage, Coarse Voltage\<newline>'' @ ''2,3\<newline>'' @ ''2,3\<newline>'' @
                concat (replicate 18 ''2,3\<newline>'')) s'
         \<and> ''Fine Voltage, Coarse Voltage\<newline>'' @ ''2,3\<newline>'' @ ''2,3\<newline>'' @
               concat (replicate 18 ''2,3\<newline>'') =
             ''Fine Voltage, Coarse Voltage\<newline>'' @ concat (replicate 20 ''2,3\<newline>'')"
proof -
  have "replicate 20 ''2,3\<newline>'' = ''2,3\<newline>'' # ''2,3\<newline>'' # replicate 18 ''2,3\<newline>''"
    by (simp add: eval_nat_numeral)
  then have r: "concat (replicate 20 ''2,3\<newline>'') =
      ''2,3\<newline>'' @ ''2,3\<newline>'' @ concat (replicate 18 ''2,3\<newline>'')"
    by (simp only: concat.simps)
  have "handle_Sensor s' =
             send 404 ''text/plain''
               (''Fine Voltage, Coarse Voltage\<newline>'' @ concat (replicate 20 ''2,3\<newline>'')) s'"
    by (simp only: handle_Sensor_eq assms csv_row_2_3)
  then show ?thesis
    by (simp only: r task_sensor_turn_cells uint8_of_float_def simp_thms)
qed

theorem sensor_stores_truncated_voltage_witness:
  "get (v_fine (task_sensor_turn two_decimals 2000 3000 initial_system)) = 2
   \<and> get (v_coarse (task_sensor_turn two_decimals 2000 3000 initial_system)) = 3
   \<and> handle_Sensor (task_sensor_turn two_decimals 2000 3000 initial_system) =
       send 404 ''text/plain''
         (''Fine Voltage, Coarse Voltage\<newline>'' @ ''2,3\<newline>'' @ ''2,3\<newline>'' @
          concat (replicate 18 ''2,3\<newline>''))
         (task_sensor_turn two_decimals 2000 3000 initial_system)"
proof -
  have c: "get (v_fine (task_sensor_turn two_decimals 2000 3000 initial_system)) = 2"
    "get (v_coarse (task_sensor_turn two_decimals 2000 3000 initial_system)) = 3"
    by (simp_all only: task_sensor_turn_cells stored_2000 stored_3000)
  from c sensor_stores_truncated_voltage [OF c] show ?thesis by blast
qed

subsection \<open>The CSV page while the sensor task runs\<close>

lemma loop_preempted_rows:
  assumes "\<And>k s. 2 * index \<le> k \<Longrightarrow>
             v_fine (others k s) = v_fine s \<and> v_coarse (others k s) = v_coarse s"
    and "index \<le> 20"
  shows "fst (handle_Sensor_loop_preempted others index str s) =
           str @ concat (replicate (20 - index) (csv_row (get (v_fine s)) (get (v_coarse s))))"
  using assms
proof (induction others index str s rule: handle_Sensor_loop_preempted.induct)
  case (1 others index IMU_str s)
  show ?case
  proof (cases "index < 20")
    case True
    let ?s1 = "others (2 * index) s"
    let ?s2 = "others (2 * index + 1) ?s1"
    have c1: "v_fine ?s1 = v_fine s" "v_coarse ?s1 = v_coarse s"
      using "1.prems"(1) [of "2 * index" s] by simp_all
    have c2: "v_fine ?s2 = v_fine s" "v_coarse ?s2 = v_coarse s"
      using "1.prems"(1) [of "2 * index + 1" ?s1] c1 by simp_all
    have later: "\<And>k s. 2 * (index + 1) \<le> k \<Longrightarrow>
             v_fine (others k s) = v_fine s \<and> v_coarse (others k s) = v_coarse s"
      using "1.prems"(1) by simp
    have n: "20 - index = Suc (20 - (index + 1))"
      using True by simp
    have unfold: "handle_Sensor_loop_preempted others index IMU_str s =
        handle_Sensor_loop_preempted others (index + 1)
          (IMU_str @ csv_row (get (v_fine ?s1)) (get (v_coarse ?s2))) ?s2"
      by (subst handle_Sensor_loop_preempted.simps) (simp add: True Let_def csv_row_def)
    have "fst (handle_Sensor_loop_preempted others index IMU_str s) =
        fst (handle_Sensor_loop_preempted others (index + 1)
          (IMU_str @ csv_row (get (v_fine s)) (get (v_coarse s))) ?s2)"
      by (simp only: unfold c1 c2)
    also have "\<dots> = (IMU_str @ csv_row (get (v_fine s)) (get (v_coarse s))) @
        concat (replicate (20 - (index + 1)) (csv_row (get (v_fine ?s2)) (get (v_coarse ?s2))))"
      using "1.IH" [OF True refl refl refl refl refl refl later] True c1 c2
      by (simp add: csv_row_def)
    also have "\<dots> = IMU_str @
        concat (replicate (20 - index) (csv_row (get (v_fine s)) (get (v_coarse s))))"
      by (simp only: c2 n) simp
    finally show ?thesis .
  next
    case False
    with "1.prems" show ?thesis
      by (subst handle_Sensor_loop_preempted.simps) simp
  qed
qed

lemma loop_preempted_nobody:
  "handle_Sensor_loop_preempted nobody index str s = (handle_Sensor_loop index str s, s)"
proof (induction index str s rule: handle_Sensor_loop.induct)
  case (1 index IMU_str s)
  show ?case
  proof (cases "index < 20")
    case True
    let ?str = "IMU_str @ String_uchar (get (v_fine s)) @ '','' @
      String_uchar (get (v_coarse s)) @ ''\<newline>''"
    have "handle_Sensor_loop_preempted nobody index IMU_str s =
        handle_Sensor_loop_preempted nobody (index + 1) ?str s"
      by (subst handle_Sensor_loop_preempted.simps) (simp add: True Let_def nobody_def)
    also have "\<dots> = (handle_Sensor_loop (index + 1) ?str s, s)"
      using "1.IH" [OF True refl refl refl refl] by simp
    also have "handle_Sensor_loop (index + 1) ?str s = handle_Sensor_loop index IMU_str s"
      by (subst (2) handle_Sensor_loop.simps) (simp add: True Let_def)
    finally show ?thesis .
  next
    case False
    then show ?thesis
      by (subst handle_Sensor_loop_preempted.simps, subst handle_Sensor_loop.simps) simp
  qed
qed

lemma handle_Sensor_preempted_nobody: "handle_Sensor_preempted nobody s = handle_Sensor s"
  by (simp add: handle_Sensor_preempted_def handle_Sensor_def loop_preempted_nobody)

lemma handle_Sensor_preempted_last:
  "last (sent (server (handle_Sensor_preempted others s))) =
     \<lparr>code = 404, content_type = ''text/plain'',
      content = fst (handle_Sensor_loop_preempted others 0 ''Fine Voltage, Coarse Voltage\<newline>'' s)\<rparr>"
  by (simp add: handle_Sensor_preempted_def last_sent_send split_beta Let_def)

lemma uint8_of_float_5: "uint8_of_float 5 = 5"
  by (simp add: uint8_of_float_def truncate_def)

lemma String_uchar_0: "String_uchar 0 = ''0''"
  by (simp add: String_uchar_def utoa.simps digit_def)

lemma String_uchar_5: "String_uchar 5 = ''5''"
  by (simp add: String_uchar_def utoa.simps digit_def)

lemma csv_row_5_5: "csv_row 5 5 = ''5,5\<newline>''"
  by (simp add: csv_row_def String_uchar_def utoa.simps digit_def)

text \<open>
  C2 as stated, that the handler reads each cell once at entry and that the twenty
  rows are identical even if the sensor task publishes new values while the handler
  runs, fails: the handler calls \<^verbatim>\<open>get\<close> on both cells in every turn of its loop. Let
  the cells hold 0 and let the sensor task take one turn, with both counts 4095, after
  the handler has built its first row: the first row reads \<^verbatim>\<open>0,0\<close> and the other
  nineteen read \<^verbatim>\<open>5,5\<close>.
\<close>

theorem csv_rows_differ_counterexample:
  "content (last (sent (server (handle_Sensor_preempted
       (sensor_turn_before 2 two_decimals 4095 4095) initial_system)))) =
     ''Fine Voltage, Coarse Voltage\<newline>'' @ ''0,0\<newline>'' @ concat (replicate 19 ''5,5\<newline>'')"
proof -
  let ?others = "sensor_turn_before 2 two_decimals 4095 4095"
  let ?s = "task_sensor_turn two_decimals 4095 4095 initial_system"
  let ?head = "''Fine Voltage, Coarse Voltage\<newline>''"
  have c0: "get (v_fine initial_system) = 0" "get (v_coarse initial_system) = 0"
    by (simp_all add: initial_system_def)
  have c5: "get (v_fine ?s) = 5" "get (v_coarse ?s) = 5"
    by (simp_all add: task_sensor_turn_cells voltage_4095 uint8_of_float_5)
  have row0: "handle_Sensor_loop_preempted ?others 0 ?head initial_system =
      handle_Sensor_loop_preempted ?others 1 (?head @ ''0,0\<newline>'') initial_system"
    by (subst handle_Sensor_loop_preempted.simps)
       (simp add: sensor_turn_before_def Let_def c0 String_uchar_0)
  have row1: "handle_Sensor_loop_preempted ?others 1 (?head @ ''0,0\<newline>'') initial_system =
      handle_Sensor_loop_preempted ?others (1 + 1) (?head @ ''0,0\<newline>'' @ ''5,5\<newline>'') ?s"
    by (subst handle_Sensor_loop_preempted.simps)
       (simp add: sensor_turn_before_def Let_def c5 String_uchar_5)
  have rest: "fst (handle_Sensor_loop_preempted ?others (1 + 1) (?head @ ''0,0\<newline>'' @ ''5,5\<newline>'') ?s) =
      (?head @ ''0,0\<newline>'' @ ''5,5\<newline>'') @
      concat (replicate (20 - (1 + 1)) (csv_row (get (v_fine ?s)) (get (v_coarse ?s))))"
    by (intro loop_preempted_rows) (simp_all add: sensor_turn_before_def)
  have "(20::nat) - (1 + 1) = 18" by simp
  then show ?thesis
    unfolding handle_Sensor_preempted_last row0 row1 rest c5 csv_row_5_5
    by (simp add: eval_nat_numeral)
qed

lemma loop_preempted_reads:
  "index \<le> 20 \<Longrightarrow>
   fst (handle_Sensor_loop_preempted others index str (state_after others (2 * index) s)) =
     str @ concat (map (\<lambda>i. csv_row (get (v_fine (state_after others (2 * i + 1) s)))
                               (get (v_coarse (state_after others (2 * i + 2) s))))
                    [index..<20])"
proof (induction "20 - index" arbitrary: index str)
  case 0
  then have "index = 20" by simp
  then show ?case
    by (subst handle_Sensor_loop_preempted.simps) simp
next
  case (Suc n)
  then have less: "index < 20" and n: "n = 20 - (index + 1)" and le: "index + 1 \<le> 20"
    by simp_all
  let ?s1 = "state_after others (2 * index + 1) s"
  let ?s2 = "state_after others (2 * index + 2) s"
  let ?row = "csv_row (get (v_fine ?s1)) (get (v_coarse ?s2))"
  have s1: "others (2 * index) (state_after others (2 * index) s) = ?s1" by simp
  have s2: "others (2 * index + 1) ?s1 = ?s2" by simp
  have s2': "?s2 = state_after others (2 * (index + 1)) s" by simp
  have "handle_Sensor_loop_preempted others index str (state_after others (2 * index) s) =
      handle_Sensor_loop_preempted others (index + 1) (str @ ?row) ?s2"
    by (subst handle_Sensor_loop_preempted.simps)
       (simp only: less if_True Let_def s1 s2 csv_row_def append_assoc)
  also have "fst \<dots> = (str @ ?row) @
      concat (map (\<lambda>i. csv_row (get (v_fine (state_after others (2 * i + 1) s)))
                               (get (v_coarse (state_after others (2 * i + 2) s))))
                    [index + 1..<20])"
    unfolding s2' by (rule Suc.hyps(1) [OF n le])
  also have "\<dots> = str @
      concat (map (\<lambda>i. csv_row (get (v_fine (state_after others (2 * i + 1) s)))
                               (get (v_coarse (state_after others (2 * i + 2) s))))
                    [index..<20])"
    using less by (simp add: upt_conv_Cons)
  finally show ?case .
qed

lemma steady_rows:
  assumes "cells_steady others s"
  shows "map (\<lambda>i. csv_row (get (v_fine (state_after others (2 * i + 1) s)))
                         (get (v_coarse (state_after others (2 * i + 2) s)))) [0..<20] =
         replicate 20 (csv_row (get (v_fine s)) (get (v_coarse s)))"
proof -
  have st: "get (v_fine (state_after others k s)) = get (v_fine s)
      \<and> get (v_coarse (state_after others k s)) = get (v_coarse s)"
    if "1 \<le> k" "k < 41" for k
    using assms that by (simp add: cells_steady_def list_all_iff)
  have "map (\<lambda>i. csv_row (get (v_fine (state_after others (2 * i + 1) s)))
                         (get (v_coarse (state_after others (2 * i + 2) s)))) [0..<20] =
      map (\<lambda>i. csv_row (get (v_fine s)) (get (v_coarse s))) [0..<20]"
  proof (rule map_cong [OF refl])
    fix i assume "i \<in> set [0..<20]"
    then have "i < 20" by simp
    then show "csv_row (get (v_fine (state_after others (2 * i + 1) s)))
                         (get (v_coarse (state_after others (2 * i + 2) s))) =
        csv_row (get (v_fine s)) (get (v_coarse s))"
      using st [of "2 * i + 1"] st [of "2 * i + 2"] by simp
  qed
  then show ?thesis by (simp add: map_replicate_const)
qed

lemma state_after_sensor_turn_before:
  "state_after (sensor_turn_before n pf raw1 raw2) k s =
     (if k \<le> n then s else task_sensor_turn pf raw1 raw2 s)"
  by (induction k) (auto simp: sensor_turn_before_def)

lemma stored_2100: "uint8_of_float (voltage 2100) = 2"
  by code_simp

lemma stored_3100: "uint8_of_float (voltage 3100) = 3"
  by code_simp

text \<open>
  C2, amended. The handler reads both cells anew for each of the twenty rows and takes
  no snapshot at entry: whatever the other tasks do while it runs, row \<open>i\<close> shows the
  value the fine cell holds at that row's first \<^verbatim>\<open>get\<close> and the value the coarse cell
  holds at its second. When the cells hold at each of those reads the values they held
  at handler entry, as they do when nothing is published while the handler runs, all
  twenty rows are identical and show those values.
\<close>

theorem csv_rows_read_anew:
  "last (sent (server (handle_Sensor_preempted others s))) =
     \<lparr>code = 404, content_type = ''text/plain'',
      content = ''Fine Voltage, Coarse Voltage\<newline>'' @
        concat (map (\<lambda>i. csv_row (get (v_fine (state_after others (2 * i + 1) s)))
                                  (get (v_coarse (state_after others (2 * i + 2) s))))
                    [0..<20])\<rparr>
   \<and> (cells_steady others s \<longrightarrow>
        last (sent (server (handle_Sensor_preempted others s))) =
          \<lparr>code = 404, content_type = ''text/plain'',
           content = ''Fine Voltage, Coarse Voltage\<newline>'' @
             concat (replicate 20 (csv_row (get (v_fine s)) (get (v_coarse s))))\<rparr>)"
proof -
  have "fst (handle_Sensor_loop_preempted others 0 ''Fine Voltage, Coarse Voltage\<newline>''
          (state_after others (2 * 0) s)) =
      ''Fine Voltage, Coarse Voltage\<newline>'' @
      concat (map (\<lambda>i. csv_row (get (v_fine (state_after others (2 * i + 1) s)))
                                (get (v_coarse (state_after others (2 * i + 2) s))))
                  [0..<20])"
    by (rule loop_preempted_reads) simp
  then have 1: "last (sent (server (handle_Sensor_preempted others s))) =
     \<lparr>code = 404, content_type = ''text/plain'',
      content = ''Fine Voltage, Coarse Voltage\<newline>'' @
        concat (map (\<lambda>i. csv_row (get (v_fine (state_after others (2 * i + 1) s)))
                                  (get (v_coarse (state_after others (2 * i + 2) s))))
                    [0..<20])\<rparr>"
    by (simp add: handle_Sensor_preempted_last)
  show ?thesis
    using 1 steady_rows [of others s] by simp
qed

theorem csv_rows_read_anew_witness:
  "cells_steady (sensor_turn_before 2 two_decimals 2100 3100)
     (task_sensor_turn two_decimals 2000 3000 initial_system)
   \<and> content (last (sent (server (handle_Sensor_preempted
        (sensor_turn_before 2 two_decimals 2100 3100)
        (task_sensor_turn two_decimals 2000 3000 initial_system))))) =
       ''Fine Voltage, Coarse Voltage\<newline>'' @ concat (replicate 20 ''2,3\<newline>'')
   \<and> content (last (sent (server (handle_Sensor_preempted
        (sensor_turn_before 2 two_decimals 4095 2000) initial_system)))) =
       ''Fine Voltage, Coarse Voltage\<newline>'' @ ''0,0\<newline>'' @
       concat (replicate 19 ''5,2\<newline>'')"
proof -
  let ?s = "task_sensor_turn two_decimals 2000 3000 initial_system"
  let ?o = "sensor_turn_before 2 two_decimals 2100 3100"
  let ?o' = "sensor_turn_before 2 two_decimals 4095 2000"
  have c: "get (v_fine ?s) = 2" "get (v_coarse ?s) = 3"
    by (simp_all only: task_sensor_turn_cells stored_2000 stored_3000)
  have c': "get (v_fine (task_sensor_turn two_decimals 2100 3100 ?s)) = 2"
    "get (v_coarse (task_sensor_turn two_decimals 2100 3100 ?s)) = 3"
    by (simp_all only: task_sensor_turn_cells stored_2100 stored_3100)
  have st: "cells_steady ?o ?s"
    unfolding cells_steady_def list_all_iff
    by (simp add: state_after_sensor_turn_before c c')
  have i0: "get (v_fine initial_system) = 0" "get (v_coarse initial_system) = 0"
    by (simp_all add: initial_system_def)
  have i5: "get (v_fine (task_sensor_turn two_decimals 4095 2000 initial_system)) = 5"
    "get (v_coarse (task_sensor_turn two_decimals 4095 2000 initial_system)) = 2"
    by (simp_all add: task_sensor_turn_cells voltage_4095 uint8_of_float_5 stored_2000)
  have row_5_2: "csv_row 5 2 = ''5,2\<newline>''"
    by (simp add: csv_row_def String_uchar_5 String_uchar_2)
  have upt: "[0..<20] = 0 # [1..<20]"
    by (simp add: upt_conv_Cons)
  have later: "map (\<lambda>i. csv_row (get (v_fine (state_after ?o' (2 * i + 1) initial_system)))
                            (get (v_coarse (state_after ?o' (2 * i + 2) initial_system))))
                 [1..<20] =
      map (\<lambda>i. ''5,2\<newline>'') [1..<20]"
    by (rule map_cong [OF refl])
       (simp del: state_after.simps add: state_after_sensor_turn_before i5 row_5_2)
  have rows: "map (\<lambda>i. csv_row (get (v_fine (state_after ?o' (2 * i + 1) initial_system)))
                            (get (v_coarse (state_after ?o' (2 * i + 2) initial_system))))
                 [0..<20] =
      ''0,0\<newline>'' # replicate 19 ''5,2\<newline>''"
    unfolding upt list.map later
    by (simp del: state_after.simps
        add: state_after_sensor_turn_before i0 csv_row_0_0 map_replicate_const)
  from csv_rows_read_anew [of ?o' initial_system]
  have "content (last (sent (server (handle_Sensor_preempted ?o' initial_system)))) =
       ''Fine Voltage, Coarse Voltage\<newline>'' @ ''0,0\<newline>'' @
       concat (replicate 19 ''5,2\<newline>'')"
    by (simp only: rows) simp
  moreover have "content (last (sent (server (handle_Sensor_preempted ?o ?s)))) =
       ''Fine Voltage, Coarse Voltage\<newline>'' @ concat (replicate 20 ''2,3\<newline>'')"
    using csv_rows_read_anew [of ?o ?s, THEN conjunct2, rule_format, OF st]
    by (simp add: c csv_row_2_3)
  ultimately show ?thesis using st by blast
qed

subsection \<open>Runs of the program\<close>

lemma send_cells: "v_fine (send c ty b s) = v_fine s" "v_coarse (send c ty b s) = v_coarse s"
  by (simp_all add: send_def)

lemma Serial_println_cells:
  "v_fine (Serial_println t s) = v_fine s" "v_coarse (Serial_println t s) = v_coarse s"
  by (simp_all add: Serial_println_def Serial_print_def)

lemma run_callback_cells:
  "v_fine (run_callback fn req s) = v_fine s" "v_coarse (run_callback fn req s) = v_coarse s"
  by (cases fn; simp add: handle_DocumentRoot_def handle_Sensor_def handle_NotFound_def
      send_cells Serial_println_cells Let_def)+

lemma handleClient_cells:
  "v_fine (handleClient pending s) = v_fine s" "v_coarse (handleClient pending s) = v_coarse s"
  by (simp_all add: handleClient_def run_callback_cells send_cells split: option.splits)

lemma task_webserver_init_cells:
  "v_fine (task_webserver_init s) = v_fine s" "v_coarse (task_webserver_init s) = v_coarse s"
  by (simp_all add: task_webserver_init_def on_def onNotFound_def begin_server_def
      Serial_println_def Serial_print_def)

lemma setup_fn_cells:
  assumes "setup_fn ready s = Some s'"
  shows "v_fine s' = v_fine s" "v_coarse s' = v_coarse s"
  using assms
  by (auto simp: setup_fn_def setup_wifi_def pinMode_def xTaskCreate_def
      Serial_println_def Serial_print_def Let_def split: option.splits)

lemma step_cells_le:
  assumes "counts_in_range e" and "get (v_fine s) \<le> 5" and "get (v_coarse s) \<le> 5"
  shows "get (v_fine (step pf e s)) \<le> 5" and "get (v_coarse (step pf e s)) \<le> 5"
  using assms
  by (cases e; simp add: task_sensor_turn_cells uint8_of_float_voltage(2)
      task_webserver_init_cells task_webserver_turn_def handleClient_cells)+

lemma run_cells_le:
  assumes "list_all counts_in_range es" and "get (v_fine s) \<le> 5" and "get (v_coarse s) \<le> 5"
  shows "get (v_fine (run pf es s)) \<le> 5 \<and> get (v_coarse (run pf es s)) \<le> 5"
  using assms
proof (induction es arbitrary: s)
  case Nil
  then show ?case by simp
next
  case (Cons e es)
  from Cons.prems have e: "counts_in_range e" and es: "list_all counts_in_range es" by simp_all
  from step_cells_le [OF e Cons.prems(2,3)] Cons.IH [OF es] show ?case by simp
qed

lemma step_cells_same:
  assumes "\<not> is_sensor_turn e"
  shows "v_fine (step pf e s) = v_fine s" and "v_coarse (step pf e s) = v_coarse s"
  using assms
  by (cases e; simp add: task_webserver_init_cells task_webserver_turn_def handleClient_cells)+

lemma run_cells_same:
  assumes "\<not> list_ex is_sensor_turn es"
  shows "v_fine (run pf es s) = v_fine s \<and> v_coarse (run pf es s) = v_coarse s"
  using assms
proof (induction es arbitrary: s)
  case Nil
  then show ?case by simp
next
  case (Cons e es)
  from Cons.prems have e: "\<not> is_sensor_turn e" and es: "\<not> list_ex is_sensor_turn es" by simp_all
  from step_cells_same [OF e] Cons.IH [OF es] show ?case by simp
qed

text \<open>
  C10. In every state that a run reaches after \<^verbatim>\<open>setup\<close>, with counts of the
  twelve-bit converter (at most 4095), each cell holds an integer from 0 to 5. The
  cells start at 0, and as long as the sensor task has not taken a turn they hold 0 and
  every data row of the CSV page reads \<^verbatim>\<open>0,0\<close>.
\<close>

theorem cells_at_most_5:
  assumes "setup_fn ready initial_system = Some s0" and "list_all counts_in_range es"
  shows "get (v_fine (run print_float es s0)) \<le> 5
         \<and> get (v_coarse (run print_float es s0)) \<le> 5
         \<and> (\<not> list_ex is_sensor_turn es \<longrightarrow>
              get (v_fine (run print_float es s0)) = 0
              \<and> get (v_coarse (run print_float es s0)) = 0
              \<and> handle_Sensor (run print_float es s0) =
                  send 404 ''text/plain''
                    (''Fine Voltage, Coarse Voltage\<newline>'' @ concat (replicate 20 ''0,0\<newline>''))
                    (run print_float es s0))"
proof -
  have i: "get (v_fine s0) = 0" "get (v_coarse s0) = 0"
    using setup_fn_cells [OF assms(1)] by (simp_all add: initial_system_def)
  then have "get (v_fine s0) \<le> 5" "get (v_coarse s0) \<le> 5" by simp_all
  note le = run_cells_le [OF assms(2) this]
  have "get (v_fine (run print_float es s0)) = 0
      \<and> get (v_coarse (run print_float es s0)) = 0
      \<and> handle_Sensor (run print_float es s0) =
          send 404 ''text/plain''
            (''Fine Voltage, Coarse Voltage\<newline>'' @ concat (replicate 20 ''0,0\<newline>''))
            (run print_float es s0)"
    if "\<not> list_ex is_sensor_turn es"
    using run_cells_same [OF that, of print_float s0] i
    by (simp add: handle_Sensor_eq csv_row_0_0)
  with le show ?thesis by blast
qed

theorem cells_at_most_5_witness:
  "\<exists>s0. setup_fn (\<lambda>n. 2 \<le> n) initial_system = Some s0
      \<and> list_all counts_in_range [Webserver_init, Sensor_turn 4095 2000]
      \<and> get (v_fine (run two_decimals [Webserver_init, Sensor_turn 4095 2000] s0)) = 5
      \<and> get (v_coarse (run two_decimals [Webserver_init, Sensor_turn 4095 2000] s0)) = 2
      \<and> get (v_fine (run two_decimals [Webserver_init, Sensor_turn 4095 2000] s0)) \<le> 5
      \<and> get (v_coarse (run two_decimals [Webserver_init, Sensor_turn 4095 2000] s0)) \<le> 5"
proof -
  obtain s0 where s: "setup_fn (\<lambda>n. 2 \<le> n) initial_system = Some s0"
    by (simp add: setup_fn_def wait_for_Serial_2)
  have l: "list_all counts_in_range [Webserver_init, Sensor_turn 4095 2000]"
    by simp
  have v: "get (v_fine (run two_decimals [Webserver_init, Sensor_turn 4095 2000] s0)) = 5"
    "get (v_coarse (run two_decimals [Webserver_init, Sensor_turn 4095 2000] s0)) = 2"
    by (simp_all add: task_sensor_turn_cells voltage_4095 uint8_of_float_5 stored_2000)
  from s l v cells_at_most_5 [OF s l, of two_decimals] show ?thesis by blast
qed

subsection \<open>The conversion from counts to volts\<close>

lemma round_to_fix_le:
  assumes "x = of_int m * 2 powi k" and "\<bar>m\<bar> \<le> 2 ^ p" and "1 \<le> p"
  shows "round_to p x = x"
proof (cases "\<bar>m\<bar> < 2 ^ p")
  case True
  with assms(1) show ?thesis by (rule round_to_fix)
next
  case False
  with assms(2) have m: "\<bar>m\<bar> = 2 ^ p" by simp
  define s :: int where "s = (if 0 \<le> m then 1 else - 1)"
  have ms: "m = s * 2 ^ p"
    using m by (auto simp: s_def abs_if split: if_splits)
  have "(2::rat) powi (k + int p) = 2 powi k * 2 powi (int p)"
    by (rule power_int_add) simp
  then have x: "x = of_int s * 2 powi (k + int p)"
    by (simp add: assms(1) ms)
  have "(2::int) ^ 1 \<le> 2 ^ p"
    using assms(3) by (intro power_increasing) simp_all
  then have "\<bar>s\<bar> < 2 ^ p" by (simp add: s_def)
  with x show ?thesis by (rule round_to_fix)
qed

text \<open>The double nearest to 5 / 4095 lies just below it.\<close>

lemma scale_eq:
  "(1407718564843525 / 1152921504606846976 :: rat) = 5 / 4095 * (1 - 1 / 2 ^ 60)"
  by simp

lemma voltage_multiples:
  "voltage 819 = 1" "voltage 1638 = 2" "voltage 2457 = 3" "voltage 3276 = 4"
  by code_simp+

lemma exponent_0: "exponent 0 = - 2"
  by code_simp

lemma voltage_bracket:
  fixes n :: int
  assumes n1: "1 \<le> n" and n2: "n \<le> 4095" and nd: "\<not> 819 dvd n"
  shows "\<bar>round_to 24 (round_to 53 (of_int n * (1407718564843525 / 1152921504606846976)))
           - of_int n * 5 / 4095\<bar> \<le> ulp 24 (of_int n * 5 / 4095)"
proof -
  define x :: rat where "x = of_int n * 5 / 4095"
  define y :: rat where "y = of_int n * (1407718564843525 / 1152921504606846976)"
  define e where "e = exponent x"
  define u where "u = ulp 24 x"
  have nr: "(1::rat) \<le> of_int n" "(of_int n :: rat) \<le> 4095"
    using n1 n2 by simp_all
  have x819: "x = of_int n / 819" by (simp add: x_def)
  have xl: "1 / 819 \<le> x" using nr(1) by (simp add: x819)
  have xu: "x \<le> 5" using nr(2) by (simp add: x819)
  have xpos: "0 < x" using xl by simp
  have yx: "y = x * (1 - 1 / 2 ^ 60)"
    unfolding y_def x_def scale_eq by simp
  have ax: "x \<noteq> 0" "\<bar>x\<bar> = x" using xpos by simp_all
  note eb = exponent_bounds [OF ax(1), unfolded ax(2), folded e_def]
  have "(2::rat) powi e < 2 powi 3" using eb(1) xu by simp
  then have e_hi: "e < 3" by (rule pow2_less_imp)
  have "(2::rat) powi (- 10) < 2 powi (e + 1)" using eb(2) xl by simp
  then have "- 10 < e + 1" by (rule pow2_less_imp)
  then have e_lo: "- 10 \<le> e" by simp
  define j where "j = nat (23 - e)"
  have j: "int j = 23 - e" using e_hi by (simp add: j_def)
  have u_eq: "u = 2 powi (e - 23)" by (simp add: u_def ulp_def e_def)
  have upos: "0 < u" by (simp add: u_eq)
  have "u * 2 ^ j = 2 powi (e - 23) * 2 powi (int j)" by (simp add: u_eq)
  also have "\<dots> = 2 powi ((e - 23) + int j)"
    by (rule power_int_add [symmetric]) simp
  also have "(e - 23) + int j = 0" using j by simp
  finally have u2j: "u * 2 ^ j = 1" by simp
  have "(2::rat) powi (- 33) \<le> 2 powi (e - 23)"
    using e_lo by (intro power_int_increasing) simp_all
  then have u_lo: "1 / 2 ^ 33 \<le> u" by (simp add: u_eq power_int_minus_divide)
  define N where "N = n * 2 ^ j"
  define q where "q = N div 819"
  define r where "r = N mod 819"
  have Nqr: "N = 819 * q + r" by (simp add: q_def r_def)
  have r_range: "0 \<le> r" "r < 819" by (simp_all add: r_def)
  have "coprime (819::int) (2 ^ j)"
    by (simp add: coprime_power_right_iff)
  then have "\<not> 819 dvd N"
    using nd by (simp add: N_def coprime_dvd_mult_left_iff)
  then have "r \<noteq> 0" by (simp add: r_def dvd_eq_mod_eq_0)
  with r_range have r1: "1 \<le> r" by simp
  have rr: "(1::rat) \<le> of_int r" "(of_int r :: rat) \<le> 819"
    using r1 r_range(2) by simp_all
  have "x = of_int n / 819 * (u * 2 ^ j)" by (simp add: x819 u2j)
  also have "\<dots> = of_int N / 819 * u" by (simp add: N_def)
  also have "of_int N = 819 * of_int q + (of_int r :: rat)" by (simp add: Nqr)
  finally have xqr: "x = (of_int q + of_int r / 819) * u"
    by (simp add: add_divide_distrib)
  define lo where "lo = of_int q * u"
  define hi where "hi = of_int (q + 1) * u"
  have hl: "hi - lo = u" by (simp add: hi_def lo_def algebra_simps)
  have x_lo: "x - lo = of_int r / 819 * u"
    by (simp add: xqr lo_def algebra_simps)
  have "1 / 819 * u \<le> of_int r / 819 * u"
    using rr(1) upos by (intro mult_right_mono divide_right_mono) simp_all
  then have gap: "lo + u / 819 \<le> x" using x_lo by simp
  have "of_int r / 819 * u \<le> 1 * u"
    using rr(2) upos by (intro mult_right_mono) simp_all
  then have x_hi: "x \<le> hi" using x_lo hl by simp
  have "x / 2 ^ 60 \<le> 5 / 2 ^ 60" using xu by (simp add: divide_right_mono)
  also have "(5 / 2 ^ 60 :: rat) \<le> 1 / 2 ^ 33 / 819" by simp
  also have "\<dots> \<le> u / 819" using u_lo by (simp add: divide_right_mono)
  finally have tiny: "x / 2 ^ 60 \<le> u / 819" .
  have yx': "y = x - x / 2 ^ 60" by (simp add: yx algebra_simps)
  have y_lo: "lo \<le> y" using gap tiny yx' by linarith
  have "0 \<le> x / 2 ^ 60" using xpos by simp
  then have y_le: "y \<le> x" using yx' by linarith
  then have y_hi: "y \<le> hi" using x_hi by linarith
  have "0 \<le> N" using n1 by (simp add: N_def)
  then have q0: "0 \<le> q" by (simp add: q_def pos_imp_zdiv_nonneg_iff)
  then have lo0: "0 \<le> lo" using upos by (simp add: lo_def)
  have "x / u < 2 ^ 24"
    using scaled_bounds(2) [OF xpos, of 24] by (simp add: u_def)
  moreover have "x / u = of_int q + of_int r / 819"
    using upos by (simp add: xqr)
  moreover have "(0::rat) \<le> of_int r / 819" using rr(1) by simp
  ultimately have "(of_int q :: rat) < 2 ^ 24" by linarith
  then have "(of_int q :: rat) < of_int (2 ^ 24)" by simp
  then have q24: "q < 2 ^ 24" by (simp only: of_int_less_iff)
  have aq: "\<bar>q\<bar> < 2 ^ 24" "\<bar>q\<bar> < 2 ^ 53" "\<bar>q + 1\<bar> \<le> 2 ^ 24" "\<bar>q + 1\<bar> \<le> 2 ^ 53"
    using q0 q24 by simp_all
  have lo_k: "lo = of_int q * 2 powi (e - 23)" by (simp add: lo_def u_eq)
  have hi_k: "hi = of_int (q + 1) * 2 powi (e - 23)" by (simp only: hi_def u_eq)
  have lo53: "round_to 53 lo = lo" using lo_k aq(2) by (rule round_to_fix)
  have lo24: "round_to 24 lo = lo" using lo_k aq(1) by (rule round_to_fix)
  have hi53: "round_to 53 hi = hi" using hi_k aq(4) by (rule round_to_fix_le) simp
  have hi24: "round_to 24 hi = hi" using hi_k aq(3) by (rule round_to_fix_le) simp
  have y0: "0 \<le> y" using lo0 y_lo by linarith
  have d_lo: "lo \<le> round_to 53 y"
    using round_to_mono [OF lo0 y_lo, of 53] by (simp add: lo53)
  have d_hi: "round_to 53 y \<le> hi"
    using round_to_mono [OF y0 y_hi, of 53] by (simp add: hi53)
  have d0: "0 \<le> round_to 53 y" using lo0 d_lo by linarith
  have f_lo: "lo \<le> round_to 24 (round_to 53 y)"
    using round_to_mono [OF lo0 d_lo, of 24] by (simp add: lo24)
  have f_hi: "round_to 24 (round_to 53 y) \<le> hi"
    using round_to_mono [OF d0 d_hi, of 24] by (simp add: hi24)
  have x_ge: "lo \<le> x" using gap upos by (simp add: add_increasing2)
  have "\<bar>round_to 24 (round_to 53 y) - x\<bar> \<le> hi - lo"
    using f_lo f_hi x_ge x_hi by linarith
  then show ?thesis
    by (simp only: hl u_def x_def y_def)
qed

lemma voltage_formula:
  "voltage raw = round_to 24 (round_to 53 (of_int (uint raw) * round_to 53 (5 / 4095)))"
proof -
  have "double_of_int 5 = 5"
    using double_of_int_exact [of 5] by simp
  then show ?thesis
    by (simp only: voltage_def float_of_double_def double_mul_def double_div_def
        double_of_int_exact [OF uint_uint16_bound])
qed

lemma uint_le_4095: "raw \<le> 4095 \<Longrightarrow> uint (raw :: uint16_t) \<le> 4095"
  by (simp add: word_le_def)

lemma exact_range:
  assumes "(raw :: uint16_t) \<le> 4095"
  shows "(0::rat) \<le> of_int (uint raw) * 5 / 4095" and "(of_int (uint raw) * 5 / 4095 :: rat) \<le> 5"
proof -
  have "(of_int (uint raw) :: rat) \<le> of_int 4095"
    using uint_le_4095 [OF assms] by (simp only: of_int_le_iff)
  then show "(of_int (uint raw) * 5 / 4095 :: rat) \<le> 5" by simp
  show "(0::rat) \<le> of_int (uint raw) * 5 / 4095"
    using count_nonneg [of raw] by simp
qed

lemma voltage_within_ulp:
  assumes "raw \<le> 4095"
  shows "\<bar>voltage raw - of_int (uint raw) * 5 / 4095\<bar> \<le> ulp 24 (of_int (uint raw) * 5 / 4095)"
proof (cases "819 dvd uint raw")
  case True
  then obtain k where k: "uint raw = 819 * k" by (auto simp: dvd_def)
  have "0 \<le> uint raw" by simp
  with k uint_le_4095 [OF assms] have "0 \<le> k" "k \<le> 5" by simp_all
  then have "k \<in> {0, 1, 2, 3, 4, 5}" by auto
  then have "uint raw \<in> {0, 819, 1638, 2457, 3276, 4095}"
    using k by auto
  moreover have "raw = word_of_int (uint raw)" by simp
  ultimately have "raw \<in> {0, 819, 1638, 2457, 3276, 4095}"
    by (auto simp only: insert_iff empty_iff) auto
  then have "voltage raw = of_int (uint raw) * 5 / 4095"
    by (auto simp: voltage_0 voltage_4095 voltage_multiples)
  then show ?thesis
    using ulp_pos [of 24 "of_int (uint raw) * 5 / 4095"] by simp
next
  case False
  then have "uint raw \<noteq> 0" by auto
  moreover have "0 \<le> uint raw" by simp
  ultimately have "1 \<le> uint raw" by linarith
  from voltage_bracket [OF this uint_le_4095 [OF assms] False]
  show ?thesis by (simp only: voltage_eq)
qed

lemma ulp_24_small:
  assumes "0 \<le> x" and "x \<le> 5"
  shows "ulp 24 x \<le> 1 / 2 ^ 21"
proof -
  have "exponent x \<le> 2"
  proof (cases "x = 0")
    case True
    then show ?thesis by (simp add: exponent_0)
  next
    case False
    with assms(1) have ax: "x \<noteq> 0" "\<bar>x\<bar> = x" by simp_all
    from exponent_bounds(1) [OF ax(1), unfolded ax(2)] assms(2)
    have "(2::rat) powi exponent x < 2 powi 3" by simp
    then have "exponent x < 3" by (rule pow2_less_imp)
    then show ?thesis by simp
  qed
  then have "(2::rat) powi (exponent x - int 24 + 1) \<le> 2 powi (- 21)"
    by (intro power_int_increasing) simp_all
  then show ?thesis by (simp add: ulp_def power_int_minus_divide)
qed

lemma voltage_strict_mono:
  assumes "raw < raw'" and "raw' \<le> 4095"
  shows "voltage raw < voltage raw'"
proof -
  let ?x = "of_int (uint raw) * 5 / 4095 :: rat"
  let ?x' = "of_int (uint raw') * 5 / 4095 :: rat"
  have r: "raw \<le> 4095" using assms by simp
  have "uint raw < uint raw'" using assms(1) by (simp add: word_less_def)
  then have "uint raw + 1 \<le> uint raw'" by simp
  then have "(of_int (uint raw + 1) :: rat) \<le> of_int (uint raw')"
    by (simp only: of_int_le_iff)
  then have "(of_int (uint raw) :: rat) + 1 \<le> of_int (uint raw')" by simp
  then have step: "?x + 1 / 819 \<le> ?x'" by simp
  have "\<bar>voltage raw - ?x\<bar> \<le> 1 / 2 ^ 21"
    using voltage_within_ulp [OF r] ulp_24_small [OF exact_range [OF r]] by linarith
  moreover have "\<bar>voltage raw' - ?x'\<bar> \<le> 1 / 2 ^ 21"
    using voltage_within_ulp [OF assms(2)] ulp_24_small [OF exact_range [OF assms(2)]]
    by linarith
  moreover have "(1 / 2 ^ 21 + 1 / 2 ^ 21 :: rat) < 1 / 819" by simp
  ultimately show ?thesis using step by linarith
qed

text \<open>
  C4. For counts from 0 to 4095 the conversion on both channels is
  \<^verbatim>\<open>raw * (5 / 4095.0)\<close>: the quotient and the product rounded to \<^verbatim>\<open>double\<close>, the
  result narrowed to \<^verbatim>\<open>float\<close>. Count 0 gives exactly 0 V and count 4095 exactly
  5 V; the voltage grows with the count, strictly; and it differs from the exact
  \<open>raw \<times> 5 / 4095\<close> by at most one unit in the last place of a \<^verbatim>\<open>float\<close>.
\<close>

theorem voltage_linear:
  assumes "raw \<le> 4095" and "raw' \<le> 4095"
  shows "voltage raw = round_to 24 (round_to 53 (of_int (uint raw) * round_to 53 (5 / 4095)))
         \<and> get (v_fine (task_sensor_turn print_float raw raw' s)) = uint8_of_float (voltage raw)
         \<and> get (v_coarse (task_sensor_turn print_float raw raw' s)) = uint8_of_float (voltage raw')
         \<and> voltage 0 = 0
         \<and> voltage 4095 = 5
         \<and> (raw \<le> raw' \<longrightarrow> voltage raw \<le> voltage raw')
         \<and> (raw < raw' \<longrightarrow> voltage raw < voltage raw')
         \<and> \<bar>voltage raw - of_int (uint raw) * 5 / 4095\<bar>
             \<le> ulp 24 (of_int (uint raw) * 5 / 4095)"
  using voltage_formula [of raw] task_sensor_turn_cells [of print_float raw raw' s]
    voltage_0 voltage_4095 voltage_mono [of raw raw'] voltage_strict_mono [OF _ assms(2), of raw]
    voltage_within_ulp [OF assms(1)]
  by blast

theorem voltage_linear_witness:
  "(2000 :: uint16_t) \<le> 4095 \<and> (3000 :: uint16_t) \<le> 4095
   \<and> voltage 2000 = 10242501 / 4194304
   \<and> voltage 3000 = 15363751 / 4194304
   \<and> voltage 2000 < voltage 3000
   \<and> \<bar>voltage 2000 - 2000 * 5 / 4095\<bar> \<le> ulp 24 (2000 * 5 / 4095)"
proof -
  have a: "(2000 :: uint16_t) \<le> 4095" and b: "(3000 :: uint16_t) \<le> 4095"
    by simp_all
  have v: "voltage 2000 = 10242501 / 4194304" "voltage 3000 = 15363751 / 4194304"
    by code_simp+
  have l: "(2000 :: uint16_t) < 3000" by simp
  have u: "uint (2000 :: uint16_t) = 2000" by simp
  from voltage_linear [OF a b]
  have "voltage 2000 < voltage 3000"
    and "\<bar>voltage 2000 - of_int (uint (2000 :: uint16_t)) * 5 / 4095\<bar>
           \<le> ulp 24 (of_int (uint (2000 :: uint16_t)) * 5 / 4095)"
    using l by blast+
  then show ?thesis
    using a b v by (simp only: u of_int_numeral simp_thms)
qed

end
